theory Spec2Isabelle
  imports Complex_Main "HOL-Library.Log_Nat"
begin

section \<open>Data model\<close>

text \<open>
  A structured grid as \<^verbatim>\<open>concatenate\<close> reads and builds it: the three point counts
  \<^verbatim>\<open>dimensions\<close>, the flat \<^verbatim>\<open>points\<close> array (one row of three coordinates per point,
  the first lattice index running fastest), and the three dictionaries of named arrays.
  A dictionary is an association list in insertion order, the order in which
  \<^verbatim>\<open>items()\<close> visits it. Coordinates, field values and the tolerance are rationals
  that stand for finite binary64 numbers; the seam test rounds as binary64 arithmetic
  does (see \<open>fl\<close> below). NaN, the infinities, overflow and subnormal numbers are
  outside this embedding.
\<close>

type_synonym point = "rat \<times> rat \<times> rat"

type_synonym 'a lattice = "'a list list list"

record grid =
  dimensions :: "nat \<times> nat \<times> nat"
  points :: "point list"
  point_arrays :: "(string \<times> rat list) list"
  cell_arrays :: "(string \<times> rat list) list"
  field_arrays :: "(string \<times> rat list) list"

text \<open>
  The five \<^verbatim>\<open>RuntimeError\<close>s that \<^verbatim>\<open>concatenate\<close> raises itself, with what their
  messages report, and \<open>NumpyError\<close> for every exception that comes out of numpy or
  of a list index instead (\<^verbatim>\<open>ValueError\<close>, \<^verbatim>\<open>IndexError\<close>, \<^verbatim>\<open>AxisError\<close>, \<^verbatim>\<open>KeyError\<close>).
\<close>

datatype error =
    InvalidAxis
  | DimensionMismatch "nat \<times> nat \<times> nat" "nat \<times> nat \<times> nat"
  | PointFieldNameMismatch
  | CellFieldNameMismatch
  | SeamCoincidenceMismatch int rat
  | SeamFieldMismatch int string
  | NumpyError

definition and_then :: "error + 'a \<Rightarrow> ('a \<Rightarrow> error + 'b) \<Rightarrow> error + 'b" where
  "and_then m f = (case m of Inl e \<Rightarrow> Inl e | Inr x \<Rightarrow> f x)"

section \<open>The numpy operations that concatenate uses\<close>

text \<open>
  A three-dimensional array of shape \<open>(nx, ny, nz)\<close> is a list of \<open>nz\<close> planes, each a
  list of \<open>ny\<close> lines, each a list of \<open>nx\<close> entries: \<open>L ! k ! j ! i\<close> is the entry at
  \<open>[i, j, k]\<close>. In this nesting the column-major (\<^verbatim>\<open>order='F'\<close>) flattening is plain
  concatenation.
\<close>

definition dims_list :: "nat \<times> nat \<times> nat \<Rightarrow> nat list" where
  "dims_list d = (case d of (nx, ny, nz) \<Rightarrow> [nx, ny, nz])"

definition dim :: "nat \<times> nat \<times> nat \<Rightarrow> nat \<Rightarrow> nat" where
  "dim d a = (case d of (nx, ny, nz) \<Rightarrow> if a = 0 then nx else if a = 1 then ny else nz)"

definition set_dim :: "nat \<times> nat \<times> nat \<Rightarrow> nat \<Rightarrow> nat \<Rightarrow> nat \<times> nat \<times> nat" where
  "set_dim d a v = (case d of (nx, ny, nz) \<Rightarrow>
     if a = 0 then (v, ny, nz) else if a = 1 then (nx, v, nz) else (nx, ny, v))"

fun chunks :: "nat \<Rightarrow> nat \<Rightarrow> 'a list \<Rightarrow> 'a list list" where
  "chunks 0 n xs = []"
| "chunks (Suc m) n xs = take n xs # chunks m n (drop n xs)"

definition lattice_of :: "nat \<times> nat \<times> nat \<Rightarrow> 'a list \<Rightarrow> 'a lattice" where
  "lattice_of shape xs = (case shape of (nx, ny, nz) \<Rightarrow>
     map (chunks ny nx) (chunks nz (nx * ny) xs))"

definition reshape :: "nat \<times> nat \<times> nat \<Rightarrow> 'a list \<Rightarrow> error + 'a lattice" where
  \<comment> \<open>\<^verbatim>\<open>a.reshape(shape, order='F')\<close>: a \<^verbatim>\<open>ValueError\<close> unless the sizes agree.\<close>
  "reshape shape xs = (case shape of (nx, ny, nz) \<Rightarrow>
     if length xs = nx * ny * nz then Inr (lattice_of shape xs) else Inl NumpyError)"

definition ravel :: "'a lattice \<Rightarrow> 'a list" where
  \<comment> \<open>\<^verbatim>\<open>a.ravel(order='F')\<close>, and \<^verbatim>\<open>reshape((-1, 3), order='F')\<close> of the points matrix.\<close>
  "ravel L = concat (map concat L)"

definition py_index :: "nat \<Rightarrow> int \<Rightarrow> error + nat" where
  \<comment> \<open>An index into an axis of size \<open>n\<close>: negative ones count from the end.\<close>
  "py_index n i =
     (let j = (if i < 0 then int n + i else i)
      in if 0 \<le> j \<and> j < int n then Inr (nat j) else Inl NumpyError)"

definition normalize_axis :: "nat \<Rightarrow> int \<Rightarrow> error + nat" where
  \<comment> \<open>The axis argument of a numpy call on an array of \<open>ndim\<close> dimensions.\<close>
  "normalize_axis ndim axis =
     (if - int ndim \<le> axis \<and> axis < int ndim
      then Inr (nat (if axis < 0 then axis + int ndim else axis))
      else Inl NumpyError)"

definition layer :: "nat \<Rightarrow> nat \<Rightarrow> 'a lattice \<Rightarrow> 'a list list" where
  "layer axis idx L =
     (if axis = 0 then map (map (\<lambda>line. line ! idx)) L
      else if axis = 1 then map (\<lambda>plane. plane ! idx) L
      else L ! idx)"

definition np_take :: "'a lattice \<Rightarrow> nat \<times> nat \<times> nat \<Rightarrow> int \<Rightarrow> nat \<Rightarrow> error + 'a list list" where
  \<comment> \<open>\<^verbatim>\<open>np.take(a, indices=i, axis=axis)\<close> on an array of the given shape.\<close>
  "np_take L shape indices axis =
     and_then (py_index (dim shape axis) indices) (\<lambda>idx. Inr (layer axis idx L))"

definition slice_spec :: "nat \<Rightarrow> 'a lattice \<Rightarrow> 'a lattice" where
  \<comment> \<open>\<^verbatim>\<open>a[slice_spec]\<close>: everything but the last layer along the axis.\<close>
  "slice_spec axis L =
     (if axis = 0 then map (map butlast) L
      else if axis = 1 then map butlast L
      else butlast L)"

definition np_concatenate :: "'a lattice \<Rightarrow> 'a lattice \<Rightarrow> nat \<Rightarrow> 'a lattice" where
  \<comment> \<open>\<^verbatim>\<open>np.concatenate((a, b), axis=axis)\<close> of two arrays that agree off the axis.\<close>
  "np_concatenate A B axis =
     (if axis = 0 then map2 (map2 (@)) A B
      else if axis = 1 then map2 (@) A B
      else A @ B)"

text \<open>
  The arithmetic of \<^verbatim>\<open>np.allclose\<close>. Every operation of its test
  \<^verbatim>\<open>abs(x - y) <= atol + rtol * abs(y)\<close> rounds the exact result to the nearest binary64
  number, ties going to the even significand. \<open>fl\<close> is that rounding on the
  rationals, with 53 significant bits and an unbounded exponent; \<open>expo x\<close> is the
  exponent of a positive \<open>x\<close>, the \<open>e\<close> with \<open>2 powi e \<le> x < 2 powi (e + 1)\<close>. A
  rational \<open>x\<close> is a binary64 number when \<open>fl x = x\<close>.
\<close>

definition expo :: "rat \<Rightarrow> int" where
  "expo x = (case quotient_of x of (p, q) \<Rightarrow>
     let k = bitlen p - bitlen q in if 2 powi k \<le> x then k else k - 1)"

definition round_even :: "rat \<Rightarrow> int" where
  "round_even r =
     (let f = \<lfloor>r\<rfloor>; d = r - of_int f
      in if d < 1 / 2 then f else if 1 / 2 < d then f + 1 else if even f then f else f + 1)"

definition fl :: "rat \<Rightarrow> rat" where
  "fl x = (if x = 0 then 0
     else let u = 2 powi (expo \<bar>x\<bar> - 52) in sgn x * of_int (round_even (\<bar>x\<bar> / u)) * u)"

definition rtol :: rat where
  \<comment> \<open>The default relative tolerance \<^verbatim>\<open>1.e-5\<close> of \<^verbatim>\<open>np.allclose\<close>, which the call leaves
      in place: the binary64 number nearest to it.\<close>
  "rtol = fl (1 / 100000)"

definition isclose :: "rat \<Rightarrow> rat \<Rightarrow> rat \<Rightarrow> bool" where
  "isclose a b atol = (\<bar>fl (a - b)\<bar> \<le> fl (atol + fl (rtol * \<bar>b\<bar>)))"

definition np_allclose :: "rat list \<Rightarrow> rat list \<Rightarrow> rat \<Rightarrow> bool" where
  "np_allclose a b atol = list_all2 (\<lambda>x y. isclose x y atol) a b"

section \<open>The accessors of the grid class\<close>

text \<open>
  Modelled from the spec: the property \<^verbatim>\<open>points_matrix\<close> and the two methods
  \<^verbatim>\<open>_reshape_point_array\<close> and \<^verbatim>\<open>_reshape_cell_array\<close> of the grid class are called by
  \<^verbatim>\<open>concatenate\<close> but defined elsewhere. The spec gives points and point fields the
  lattice shape of the grid in column-major order, and cell fields one value per cell,
  the cell count along an axis being the point count minus one, a degenerate axis
  counting as one.
\<close>

definition coords :: "point list \<Rightarrow> rat list" where
  "coords ps = concat (map (\<lambda>p. case p of (x, y, z) \<Rightarrow> [x, y, z]) ps)"

definition component :: "nat \<Rightarrow> point \<Rightarrow> rat" where
  "component c p = (case p of (x, y, z) \<Rightarrow> if c = 0 then x else if c = 1 then y else z)"

definition points_matrix :: "grid \<Rightarrow> error + point lattice" where
  "points_matrix g = reshape (dimensions g) (points g)"

definition reshape_point_array :: "grid \<Rightarrow> rat list \<Rightarrow> error + rat lattice" where
  "reshape_point_array g a = reshape (dimensions g) a"

definition cell_dim :: "nat \<Rightarrow> nat" where
  "cell_dim n = (if n - 1 = 0 then 1 else n - 1)"

definition cell_dimensions :: "nat \<times> nat \<times> nat \<Rightarrow> nat \<times> nat \<times> nat" where
  "cell_dimensions d = (case d of (nx, ny, nz) \<Rightarrow> (cell_dim nx, cell_dim ny, cell_dim nz))"

definition reshape_cell_array :: "grid \<Rightarrow> rat list \<Rightarrow> error + rat lattice" where
  "reshape_cell_array g a = reshape (cell_dimensions (dimensions g)) a"

section \<open>concatenate\<close>

fun check_dimensions :: "int \<Rightarrow> nat \<Rightarrow> (nat \<times> nat) list \<Rightarrow> bool" where
  \<comment> \<open>The loop over \<^verbatim>\<open>enumerate(zip(...))\<close>: false when it raises.\<close>
  "check_dimensions axis i [] = True"
| "check_dimensions axis i ((dim1, dim2) # rest) =
     (if int i = axis then check_dimensions axis (Suc i) rest
      else if dim1 \<noteq> dim2 then False
      else check_dimensions axis (Suc i) rest)"

definition take_seam :: "grid \<Rightarrow> int \<Rightarrow> int \<Rightarrow> error + rat list" where
  \<comment> \<open>\<^verbatim>\<open>np.take(g.points_matrix, indices=i, axis=axis)\<close>, its coordinates in a row. The
      matrix has four axes, the last one (of size three) being the coordinate.\<close>
  "take_seam g indices axis =
     and_then (points_matrix g) (\<lambda>pm.
     and_then (normalize_axis 4 axis) (\<lambda>a.
       if a < 3
       then and_then (np_take pm (dimensions g) indices a) (\<lambda>l. Inr (coords (concat l)))
       else and_then (py_index 3 indices) (\<lambda>c. Inr (map (component c) (ravel pm)))))"

fun join_point_arrays :: "grid \<Rightarrow> grid \<Rightarrow> nat \<Rightarrow> (string \<times> rat list) list
    \<Rightarrow> error + (string \<times> rat list) list" where
  "join_point_arrays dataset other axis [] = Inr []"
| "join_point_arrays dataset other axis ((name, point_array) # rest) =
     and_then (reshape_point_array dataset point_array) (\<lambda>arr_1.
     and_then (case map_of (point_arrays other) name of
                 None \<Rightarrow> Inl NumpyError
               | Some a \<Rightarrow> reshape_point_array other a) (\<lambda>arr_2.
     and_then (np_take arr_1 (dimensions dataset) (- 1) axis) (\<lambda>seam_1.
     and_then (np_take arr_2 (dimensions other) 0 axis) (\<lambda>seam_2.
       if seam_1 \<noteq> seam_2 then Inl (SeamFieldMismatch (int axis) name)
       else and_then (join_point_arrays dataset other axis rest) (\<lambda>new_point_data.
         Inr ((name, ravel (np_concatenate (slice_spec axis arr_1) arr_2 axis))
              # new_point_data))))))"

fun join_cell_arrays :: "grid \<Rightarrow> grid \<Rightarrow> nat \<Rightarrow> (string \<times> rat list) list
    \<Rightarrow> error + (string \<times> rat list) list" where
  "join_cell_arrays dataset other axis [] = Inr []"
| "join_cell_arrays dataset other axis ((name, cell_array) # rest) =
     and_then (reshape_cell_array dataset cell_array) (\<lambda>arr_1.
     and_then (case map_of (cell_arrays other) name of
                 None \<Rightarrow> Inl NumpyError
               | Some a \<Rightarrow> reshape_cell_array other a) (\<lambda>arr_2.
     and_then (join_cell_arrays dataset other axis rest) (\<lambda>new_cell_data.
       Inr ((name, ravel (np_concatenate arr_1 arr_2 axis)) # new_cell_data))))"

definition new_dims :: "grid \<Rightarrow> grid \<Rightarrow> nat \<Rightarrow> nat \<times> nat \<times> nat" where
  "new_dims dataset other axis =
     set_dim (dimensions dataset) axis
       (nat (int (dim (dimensions dataset) axis) + (int (dim (dimensions other) axis) - 1)))"

definition concatenate :: "grid \<Rightarrow> grid \<Rightarrow> int \<Rightarrow> rat \<Rightarrow> error + grid" where
  "concatenate dataset other axis tolerance =
     (if axis > 2 then Inl InvalidAxis
      else if \<not> check_dimensions axis 0
                 (zip (dims_list (dimensions dataset)) (dims_list (dimensions other)))
        then Inl (DimensionMismatch (dimensions dataset) (dimensions other))
      else if set (map fst (point_arrays dataset)) \<noteq> set (map fst (point_arrays other))
        then Inl PointFieldNameMismatch
      else if set (map fst (cell_arrays dataset)) \<noteq> set (map fst (cell_arrays other))
        then Inl CellFieldNameMismatch
      else
        and_then (take_seam dataset (- 1) axis) (\<lambda>seam_1.
        and_then (take_seam other 0 axis) (\<lambda>seam_2.
          if \<not> np_allclose seam_1 seam_2 tolerance
          then Inl (SeamCoincidenceMismatch axis tolerance)
          else if axis < 0 then Inl NumpyError
          else
            and_then (points_matrix dataset) (\<lambda>pm_1.
            and_then (points_matrix other) (\<lambda>pm_2.
            and_then (join_point_arrays dataset other (nat axis) (point_arrays dataset))
              (\<lambda>new_point_data.
            and_then (join_cell_arrays dataset other (nat axis) (cell_arrays dataset))
              (\<lambda>new_cell_data.
              Inr \<lparr>dimensions = new_dims dataset other (nat axis),
                   points = ravel (np_concatenate (slice_spec (nat axis) pm_1) pm_2 (nat axis)),
                   point_arrays = new_point_data,
                   cell_arrays = new_cell_data,
                   field_arrays = []\<rparr>)))))))"


section \<open>Shapes, valid grids and splits\<close>

definition has_shape :: "nat \<times> nat \<times> nat \<Rightarrow> 'a lattice \<Rightarrow> bool" where
  "has_shape shape L = (case shape of (nx, ny, nz) \<Rightarrow>
     length L = nz \<and>
     list_all (\<lambda>plane. length plane = ny \<and> list_all (\<lambda>line. length line = nx) plane) L)"

text \<open>
  The invariant of the data model: three positive dimensions, one point and one value
  of every point field per lattice node, one value of every cell field per cell, and
  (a dictionary) no name twice.
\<close>

definition n_points :: "grid \<Rightarrow> nat" where
  "n_points g = (case dimensions g of (nx, ny, nz) \<Rightarrow> nx * ny * nz)"

definition n_cells :: "grid \<Rightarrow> nat" where
  "n_cells g = (case cell_dimensions (dimensions g) of (cx, cy, cz) \<Rightarrow> cx * cy * cz)"

definition valid_grid :: "grid \<Rightarrow> bool" where
  "valid_grid g =
     ((case dimensions g of (nx, ny, nz) \<Rightarrow> 0 < nx \<and> 0 < ny \<and> 0 < nz) \<and>
      length (points g) = n_points g \<and>
      list_all (\<lambda>(name, a). length a = n_points g) (point_arrays g) \<and>
      list_all (\<lambda>(name, a). length a = n_cells g) (cell_arrays g) \<and>
      distinct (map fst (point_arrays g)) \<and>
      distinct (map fst (cell_arrays g)))"

text \<open>
  Modelled from the spec: splitting a grid into two sub-grids that overlap at the seam
  (the extraction itself is the toolkit's). Cut at layer \<open>s\<close> along the axis, the lower
  part keeps the layers \<open>0..s\<close> and the upper part the layers from \<open>s\<close> on, so layer
  \<open>s\<close> is in both. Points and point fields of the parts are those of the grid on their
  nodes; the cell fields of the parts need only carry the grid's names and one value per
  cell of the part.
\<close>

definition first_layers :: "nat \<Rightarrow> nat \<Rightarrow> 'a lattice \<Rightarrow> 'a lattice" where
  "first_layers axis n L =
     (if axis = 0 then map (map (take n)) L
      else if axis = 1 then map (take n) L
      else take n L)"

definition drop_layers :: "nat \<Rightarrow> nat \<Rightarrow> 'a lattice \<Rightarrow> 'a lattice" where
  "drop_layers axis n L =
     (if axis = 0 then map (map (drop n)) L
      else if axis = 1 then map (drop n) L
      else drop n L)"




section \<open>Example grids\<close>

text \<open>
  The two unit squares of the spec's scenario, side by side along the first axis, each
  with a point field, a cell field and (the first) a field-level array, and the grid
  that joining them gives.
\<close>

definition grid_a :: grid where
  "grid_a = \<lparr>dimensions = (2, 2, 1),
     points = [(0, 0, 0), (1, 0, 0), (0, 1, 0), (1, 1, 0)],
     point_arrays = [(''p'', [1, 2, 3, 4])],
     cell_arrays = [(''c'', [10])],
     field_arrays = [(''f'', [7])]\<rparr>"

definition grid_b :: grid where
  "grid_b = \<lparr>dimensions = (2, 2, 1),
     points = [(1, 0, 0), (2, 0, 0), (1, 1, 0), (2, 1, 0)],
     point_arrays = [(''p'', [2, 5, 4, 6])],
     cell_arrays = [(''c'', [20])],
     field_arrays = []\<rparr>"

definition grid_ab :: grid where
  "grid_ab = \<lparr>dimensions = (3, 2, 1),
     points = [(0, 0, 0), (1, 0, 0), (2, 0, 0), (0, 1, 0), (1, 1, 0), (2, 1, 0)],
     point_arrays = [(''p'', [1, 2, 5, 3, 4, 6])],
     cell_arrays = [(''c'', [10, 20])],
     field_arrays = []\<rparr>"

text \<open>
  A single node; two grids whose second dimensions differ (the spec's example of
  incompatible dimensions), with different point-field names as well; the first column
  of \<open>grid_ab\<close> as a grid of its own, one layer thick along the first axis; and
  \<open>grid_a\<close> with its point field under another name.
\<close>

definition unit_grid :: grid where
  "unit_grid = \<lparr>dimensions = (1, 1, 1), points = [(0, 0, 0)],
     point_arrays = [], cell_arrays = [], field_arrays = []\<rparr>"

definition wide_a :: grid where
  "wide_a = \<lparr>dimensions = (4, 4, 1), points = replicate 16 (0, 0, 0),
     point_arrays = [(''p'', replicate 16 0)], cell_arrays = [], field_arrays = []\<rparr>"

definition wide_b :: grid where
  "wide_b = \<lparr>dimensions = (4, 5, 1), points = replicate 20 (0, 0, 0),
     point_arrays = [(''q'', replicate 20 0)], cell_arrays = [], field_arrays = []\<rparr>"

definition edge_a :: grid where
  "edge_a = \<lparr>dimensions = (1, 2, 1), points = [(0, 0, 0), (0, 1, 0)],
     point_arrays = [(''p'', [1, 3])], cell_arrays = [(''c'', [10])], field_arrays = []\<rparr>"

definition grid_q :: grid where
  "grid_q = grid_a\<lparr>point_arrays := [(''q'', [1, 2, 3, 4])]\<rparr>"

text \<open>
  The number of nodes of one layer across an axis; and two one-point grids whose points
  lie one unit apart, one million units from the origin.
\<close>

definition layer_size :: "nat \<times> nat \<times> nat \<Rightarrow> nat \<Rightarrow> nat" where
  "layer_size shape axis = (case shape of (nx, ny, nz) \<Rightarrow>
     if axis = 0 then ny * nz else if axis = 1 then nx * nz else nx * ny)"

definition far_a :: grid where
  "far_a = \<lparr>dimensions = (1, 1, 1), points = [(1000001, 0, 0)],
     point_arrays = [], cell_arrays = [], field_arrays = []\<rparr>"

definition far_b :: grid where
  "far_b = \<lparr>dimensions = (1, 1, 1), points = [(1000000, 0, 0)],
     point_arrays = [], cell_arrays = [], field_arrays = []\<rparr>"

text \<open>
  \<open>grid_b\<close> with its first column moved an eighth of a unit to the right.
\<close>

definition grid_c :: grid where
  "grid_c = grid_b\<lparr>points := [(9 / 8, 0, 0), (2, 0, 0), (9 / 8, 1, 0), (2, 1, 0)]\<rparr>"

section \<open>Shape lemmas\<close>

lemma and_then_Inl [simp]: "and_then (Inl e) f = Inl e"
  by (simp add: and_then_def)

lemma and_then_Inr [simp]: "and_then (Inr x) f = f x"
  by (simp add: and_then_def)

lemma and_then_eq_Inr: "and_then m f = Inr y \<longleftrightarrow> (\<exists>x. m = Inr x \<and> f x = Inr y)"
  by (cases m) simp_all

lemma chunks_length [simp]: "length (chunks m n xs) = m"
  by (induction m arbitrary: xs) simp_all


lemma chunks_elem_length: "length xs = m * n \<Longrightarrow> c \<in> set (chunks m n xs) \<Longrightarrow> length c = n"
proof (induction m arbitrary: xs)
  case 0
  then show ?case by simp
next
  case (Suc m)
  have "length (drop n xs) = m * n" using Suc.prems(1) by simp
  from Suc.IH [OF this] Suc.prems show ?case by auto
qed

lemma chunks_of_concat:
  "length xss = m \<Longrightarrow> \<forall>x\<in>set xss. length x = n \<Longrightarrow> chunks m n (concat xss) = xss"
proof (induction xss arbitrary: m)
  case Nil
  then show ?case by simp
next
  case (Cons x xss)
  then obtain m' where m: "m = Suc m'" by (cases m) auto
  with Cons show ?case by simp
qed

lemma length_concat_uniform: "\<forall>x\<in>set xss. length x = n \<Longrightarrow> length (concat xss) = length xss * n"
  by (induction xss) simp_all

lemma has_shape_lattice_of:
  assumes "length xs = nx * ny * nz"
  shows "has_shape (nx, ny, nz) (lattice_of (nx, ny, nz) xs)"
proof -
  have len: "length xs = nz * (nx * ny)" using assms by (simp add: mult.commute)
  have "\<And>p. p \<in> set (chunks nz (nx * ny) xs) \<Longrightarrow> length p = ny * nx"
    using chunks_elem_length [OF len] by (simp add: mult.commute)
  then show ?thesis
    by (auto simp: has_shape_def lattice_of_def list_all_iff dest: chunks_elem_length)
qed


lemma length_ravel:
  assumes "has_shape (nx, ny, nz) L"
  shows "length (ravel L) = nx * ny * nz"
proof -
  have "\<forall>p\<in>set L. length (concat p) = length p * nx"
    using assms by (auto simp: has_shape_def list_all_iff intro!: length_concat_uniform)
  then have "\<forall>p\<in>set (map concat L). length p = ny * nx"
    using assms by (auto simp: has_shape_def list_all_iff)
  then have "length (concat (map concat L)) = length (map concat L) * (ny * nx)"
    by (intro length_concat_uniform)
  then show ?thesis using assms by (simp add: ravel_def has_shape_def)
qed

lemma lattice_of_ravel:
  assumes "has_shape (nx, ny, nz) L"
  shows "lattice_of (nx, ny, nz) (ravel L) = L"
proof -
  have "\<forall>p\<in>set L. length (concat p) = length p * nx"
    using assms by (auto simp: has_shape_def list_all_iff intro!: length_concat_uniform)
  then have planes: "\<forall>p\<in>set (map concat L). length p = nx * ny"
    using assms by (auto simp: has_shape_def list_all_iff mult.commute)
  have "chunks nz (nx * ny) (concat (map concat L)) = map concat L"
    using assms planes by (intro chunks_of_concat) (simp_all add: has_shape_def)
  moreover have "map (chunks ny nx) (map concat L) = L"
    using assms by (auto simp: has_shape_def list_all_iff chunks_of_concat intro!: map_idI)
  ultimately show ?thesis by (simp add: lattice_of_def ravel_def)
qed

lemma reshape_Inr_iff:
  "reshape (nx, ny, nz) xs = Inr L \<longleftrightarrow> length xs = nx * ny * nz \<and> L = lattice_of (nx, ny, nz) xs"
  by (auto simp: reshape_def)

lemma reshape_ravel:
  "has_shape (nx, ny, nz) L \<Longrightarrow> reshape (nx, ny, nz) (ravel L) = Inr L"
  by (simp add: reshape_def length_ravel lattice_of_ravel)

section \<open>Rounding\<close>

lemma round_even_le: "r \<le> of_int n \<Longrightarrow> round_even r \<le> n"
proof -
  assume r: "r \<le> of_int n"
  then have f: "\<lfloor>r\<rfloor> \<le> n" by (simp add: floor_le_iff)
  show ?thesis
  proof (cases "r - of_int \<lfloor>r\<rfloor> < 1 / 2")
    case True
    then show ?thesis using f by (simp add: round_even_def Let_def)
  next
    case False
    then have "of_int \<lfloor>r\<rfloor> < r" by simp
    with r have "(of_int \<lfloor>r\<rfloor> :: rat) < of_int n" by linarith
    then have "\<lfloor>r\<rfloor> + 1 \<le> n" by simp
    with f show ?thesis by (simp add: round_even_def Let_def)
  qed
qed

lemma round_even_ge: "of_int n \<le> r \<Longrightarrow> n \<le> round_even r"
proof -
  assume "of_int n \<le> r"
  then have "n \<le> \<lfloor>r\<rfloor>" by (simp add: le_floor_iff)
  then show ?thesis by (simp add: round_even_def Let_def)
qed

lemma powi_le: "a \<le> b \<Longrightarrow> (2::rat) powi a \<le> 2 powi b"
  by (rule power_int_increasing) simp_all

lemma powi_less_imp: "(2::rat) powi a < 2 powi b \<Longrightarrow> a < b"
  using powi_le [of b a] by (cases "a < b") simp_all

lemma powi_pos [simp]: "0 < (2::rat) powi a"
  by simp

lemma powi_of_nat: "0 \<le> n \<Longrightarrow> (2::rat) powi n = of_int (2 ^ nat n)"
  by (simp add: power_int_def)

lemma expo_bounds:
  assumes "0 < x"
  shows "2 powi expo x \<le> x" and "x < 2 powi (expo x + 1)"
proof -
  obtain p q where pq: "quotient_of x = (p, q)" by (cases "quotient_of x")
  then have q: "0 < q" and x: "x = of_int p / of_int q"
    by (simp_all add: quotient_of_denom_pos quotient_of_div)
  from assms x q have p: "0 < p" by (simp add: zero_less_divide_iff)
  define k where "k = bitlen p - bitlen q"
  have bp: "1 \<le> bitlen p" and bq: "1 \<le> bitlen q"
    using p q by (simp_all add: bitlen_alt_def)
  have P: "(2::rat) powi (bitlen p - 1) \<le> of_int p" "(of_int p :: rat) < 2 powi bitlen p"
    using bitlen_bounds [OF p] bp
    by (simp_all add: powi_of_nat del: of_int_power)
  have Q: "(2::rat) powi (bitlen q - 1) \<le> of_int q" "(of_int q :: rat) < 2 powi bitlen q"
    using bitlen_bounds [OF q] bq
    by (simp_all add: powi_of_nat del: of_int_power)
  have qpos: "(0::rat) < of_int q" using q by simp
  have lower: "2 powi (k - 1) < x"
  proof -
    have "2 powi (k - 1) * (of_int q :: rat) < 2 powi (k - 1) * 2 powi bitlen q"
      using Q(2) by (intro mult_strict_left_mono) simp_all
    also have "\<dots> = 2 powi (bitlen p - 1)"
      by (simp add: k_def power_int_add [symmetric])
    also have "\<dots> \<le> of_int p" by (rule P(1))
    finally show ?thesis using qpos by (simp add: x pos_less_divide_eq)
  qed
  have upper: "x < 2 powi (k + 1)"
  proof -
    have "(of_int p :: rat) < 2 powi bitlen p" by (rule P(2))
    also have "\<dots> = 2 powi (k + 1) * 2 powi (bitlen q - 1)"
      by (simp add: k_def power_int_add [symmetric])
    also have "\<dots> \<le> 2 powi (k + 1) * of_int q"
      using Q(1) by (intro mult_left_mono) simp_all
    finally show ?thesis using qpos by (simp add: x pos_divide_less_eq)
  qed
  have e: "expo x = (if 2 powi k \<le> x then k else k - 1)"
    by (simp add: expo_def pq k_def Let_def)
  show "2 powi expo x \<le> x" using lower by (simp add: e)
  show "x < 2 powi (expo x + 1)" using upper by (auto simp: e not_le)
qed


lemma fl_nonneg: "0 \<le> x \<Longrightarrow> 0 \<le> fl x"
proof -
  assume x: "0 \<le> x"
  show ?thesis
  proof (cases "x = 0")
    case True
    then show ?thesis by (simp add: fl_def)
  next
    case False
    with x have pos: "0 < x" by simp
    let ?u = "(2::rat) powi (expo \<bar>x\<bar> - 52)"
    have "of_int 0 \<le> \<bar>x\<bar> / ?u" by simp
    then have "0 \<le> round_even (\<bar>x\<bar> / ?u)" by (rule round_even_ge)
    then show ?thesis using pos by (simp add: fl_def Let_def)
  qed
qed

lemma fl_minus: "fl (- x) = - fl x"
  by (simp add: fl_def Let_def sgn_minus)

lemma abs_fl: "\<bar>fl x\<bar> = fl \<bar>x\<bar>"
proof (cases "0 \<le> x")
  case True
  then show ?thesis using fl_nonneg [of x] by simp
next
  case False
  then have "0 \<le> - x" by simp
  from fl_nonneg [OF this] False show ?thesis by (simp add: fl_minus)
qed

lemma fl_pos_eq:
  "0 < x \<Longrightarrow> fl x = of_int (round_even (x / 2 powi (expo x - 52))) * 2 powi (expo x - 52)"
  by (simp add: fl_def Let_def)

lemma expo_mono:
  assumes "0 < x" and "x \<le> t"
  shows "expo x \<le> expo t"
proof -
  from assms have t: "0 < t" by simp
  have "2 powi expo x \<le> x" by (rule expo_bounds(1) [OF assms(1)])
  also note assms(2)
  also have "t < 2 powi (expo t + 1)" by (rule expo_bounds(2) [OF t])
  finally have "expo x < expo t + 1" by (rule powi_less_imp)
  then show ?thesis by simp
qed

lemma scale_up: "(2::rat) powi (e - 52) * 2 ^ 53 = 2 powi (e + 1)"
  using power_int_add [of "2::rat" "e - 52" 53] by (simp add: add.commute)

lemma scale_down: "(2::rat) powi (e - 52) * 2 ^ 52 = 2 powi e"
  using power_int_add [of "2::rat" "e - 52" 52] by simp

lemma fl_le_double:
  assumes "0 < x" and "x \<le> t" and "fl t = t"
  shows "fl x \<le> t"
proof -
  from assms have t: "0 < t" by simp
  let ?ux = "(2::rat) powi (expo x - 52)" and ?ut = "(2::rat) powi (expo t - 52)"
  have le: "expo x \<le> expo t" by (rule expo_mono [OF assms(1,2)])
  show ?thesis
  proof (cases "expo x = expo t")
    case True
    from assms(3) t have "of_int (round_even (t / ?ut)) * ?ut = t" by (simp add: fl_pos_eq)
    then have mt: "t / ?ut = of_int (round_even (t / ?ut))"
      by (simp add: field_simps)
    have "x / ?ut \<le> t / ?ut" using assms(2) by (simp add: divide_right_mono)
    then have "round_even (x / ?ut) \<le> round_even (t / ?ut)"
      using mt by (intro round_even_le) simp
    then have "of_int (round_even (x / ?ut)) * ?ut \<le> of_int (round_even (t / ?ut)) * ?ut"
      by (intro mult_right_mono) simp_all
    also have "\<dots> = t" using mt by (simp add: field_simps)
    finally show ?thesis using assms(1) True by (simp add: fl_pos_eq)
  next
    case False
    with le have lt: "expo x + 1 \<le> expo t" by simp
    have "x < 2 powi (expo x + 1)" by (rule expo_bounds(2) [OF assms(1)])
    also have "\<dots> = ?ux * 2 ^ 53" by (simp only: scale_up)
    finally have "x / ?ux \<le> of_int (2 ^ 53)"
      by (simp add: pos_divide_le_eq mult.commute)
    then have "round_even (x / ?ux) \<le> 2 ^ 53" by (rule round_even_le)
    then have "(of_int (round_even (x / ?ux)) :: rat) \<le> of_int (2 ^ 53)"
      by (simp only: of_int_le_iff)
    then have "of_int (round_even (x / ?ux)) * ?ux \<le> of_int (2 ^ 53) * ?ux"
      by (intro mult_right_mono) simp_all
    also have "\<dots> = 2 powi (expo x + 1)" using scale_up [of "expo x"] by (simp add: mult.commute)
    also have "\<dots> \<le> 2 powi expo t" by (rule powi_le [OF lt])
    also have "\<dots> \<le> t" by (rule expo_bounds(1) [OF t])
    finally show ?thesis using assms(1) by (simp add: fl_pos_eq)
  qed
qed

lemma double_le_fl:
  assumes "0 < t" and "t \<le> z" and "fl t = t"
  shows "t \<le> fl z"
proof -
  from assms have z: "0 < z" by simp
  let ?uz = "(2::rat) powi (expo z - 52)" and ?ut = "(2::rat) powi (expo t - 52)"
  have le: "expo t \<le> expo z" by (rule expo_mono [OF assms(1,2)])
  show ?thesis
  proof (cases "expo t = expo z")
    case True
    from assms(3,1) have "of_int (round_even (t / ?ut)) * ?ut = t" by (simp add: fl_pos_eq)
    then have mt: "t / ?ut = of_int (round_even (t / ?ut))"
      by (simp add: field_simps)
    have "t / ?ut \<le> z / ?ut" using assms(2) by (simp add: divide_right_mono)
    then have "round_even (t / ?ut) \<le> round_even (z / ?ut)"
      using mt by (intro round_even_ge) simp
    then have "of_int (round_even (t / ?ut)) * ?ut \<le> of_int (round_even (z / ?ut)) * ?ut"
      by (intro mult_right_mono) simp_all
    moreover have "of_int (round_even (t / ?ut)) * ?ut = t" using mt by (simp add: field_simps)
    ultimately have "t \<le> of_int (round_even (z / ?ut)) * ?ut" by simp
    then show ?thesis using z True by (simp add: fl_pos_eq)
  next
    case False
    with le have lt: "expo t + 1 \<le> expo z" by simp
    have "t < 2 powi (expo t + 1)" by (rule expo_bounds(2) [OF assms(1)])
    also have "\<dots> \<le> 2 powi expo z" by (rule powi_le [OF lt])
    also have "\<dots> = of_int (2 ^ 52) * ?uz" using scale_down [of "expo z"] by (simp add: mult.commute)
    also have "\<dots> \<le> of_int (round_even (z / ?uz)) * ?uz"
    proof (intro mult_right_mono)
      have "2 powi expo z \<le> z" by (rule expo_bounds(1) [OF z])
      then have "?uz * 2 ^ 52 \<le> z" by (simp only: scale_down)
      then have "of_int (2 ^ 52) \<le> z / ?uz"
        by (simp add: pos_le_divide_eq mult.commute)
      then have "2 ^ 52 \<le> round_even (z / ?uz)" by (rule round_even_ge)
      then show "(of_int (2 ^ 52) :: rat) \<le> of_int (round_even (z / ?uz))"
        by (simp only: of_int_le_iff)
    qed simp
    finally show ?thesis using z by (simp add: fl_pos_eq)
  qed
qed

lemma isclose_within:
  assumes "\<bar>a - b\<bar> \<le> atol" and "fl atol = atol"
  shows "isclose a b atol"
proof -
  have y: "0 \<le> fl (rtol * \<bar>b\<bar>)"
    by (intro fl_nonneg mult_nonneg_nonneg) (simp_all add: rtol_def fl_nonneg)
  from assms(1) have t: "0 \<le> atol" by simp
  have left: "fl \<bar>a - b\<bar> \<le> atol"
  proof (cases "a - b = 0")
    case True
    then show ?thesis using t by (simp add: fl_def)
  next
    case False
    then have "0 < \<bar>a - b\<bar>" by simp
    from fl_le_double [OF this assms(1,2)] show ?thesis .
  qed
  have right: "atol \<le> fl (atol + fl (rtol * \<bar>b\<bar>))"
  proof (cases "atol = 0")
    case True
    then show ?thesis using y by (simp add: fl_nonneg)
  next
    case False
    with t have "0 < atol" by simp
    moreover have "atol \<le> atol + fl (rtol * \<bar>b\<bar>)" using y by simp
    ultimately show ?thesis using assms(2) by (rule double_le_fl)
  qed
  from left right show ?thesis by (simp add: isclose_def abs_fl)
qed

text \<open>
  Two equations for evaluation: the value of \<open>rtol\<close>, and the test on equal numbers,
  which needs no rounding.
\<close>

lemma rtol_value [code]: "rtol = 5902958103587057 / 590295810358705651712"
  unfolding rtol_def by code_simp

lemma isclose_refl: "0 \<le> atol \<Longrightarrow> isclose a a atol"
proof -
  assume "0 \<le> atol"
  moreover have "0 \<le> fl (rtol * \<bar>a\<bar>)"
    by (intro fl_nonneg mult_nonneg_nonneg) (simp_all add: rtol_def fl_nonneg)
  ultimately have "0 \<le> fl (atol + fl (rtol * \<bar>a\<bar>))"
    by (intro fl_nonneg) simp
  then show ?thesis by (simp add: isclose_def fl_def)
qed

lemma isclose_code [code]:
  "isclose a b atol =
     (if a = b \<and> 0 \<le> atol then True else \<bar>fl (a - b)\<bar> \<le> fl (atol + fl (rtol * \<bar>b\<bar>)))"
  by (auto simp: isclose_refl) (simp_all add: isclose_def)

text \<open>
  The test is the rounded one, not the exact one: for \<open>a\<close> the binary64 number nearest
  to 2.00001, \<open>b = 1\<close> and a tolerance of 1, the exact difference is above
  \<open>1 + b / 100000\<close>, and the test passes, both of its sides rounding to the same
  number.
\<close>

lemma isclose_rounds:
  "isclose (4503622145368633 / 2 ^ 51) 1 1 \<and>
   \<not> \<bar>4503622145368633 / 2 ^ 51 - 1\<bar> \<le> (1 + 1 / 100000 * \<bar>1\<bar> :: rat)"
  by code_simp

section \<open>Reading off a successful call\<close>

lemma py_index_last: "py_index n (- 1) = Inr idx \<longleftrightarrow> 0 < n \<and> idx = n - 1"
  by (auto simp: py_index_def Let_def)

lemma py_index_first: "py_index n 0 = Inr idx \<longleftrightarrow> 0 < n \<and> idx = 0"
  by (auto simp: py_index_def Let_def)

lemma np_take_last:
  "np_take L shape (- 1) axis = Inr l \<longleftrightarrow>
     0 < dim shape axis \<and> l = layer axis (dim shape axis - 1) L"
  by (auto simp: np_take_def and_then_eq_Inr py_index_last)

lemma np_take_first:
  "np_take L shape 0 axis = Inr l \<longleftrightarrow> 0 < dim shape axis \<and> l = layer axis 0 L"
  by (auto simp: np_take_def and_then_eq_Inr py_index_first)

lemma take_seam_last:
  assumes "0 \<le> axis" and "axis \<le> 2"
  shows "take_seam g (- 1) axis = Inr s \<longleftrightarrow>
     (\<exists>pm. points_matrix g = Inr pm \<and> 0 < dim (dimensions g) (nat axis) \<and>
        s = coords (concat (layer (nat axis) (dim (dimensions g) (nat axis) - 1) pm)))"
  using assms
  by (auto simp: take_seam_def and_then_eq_Inr normalize_axis_def np_take_last)

lemma take_seam_first:
  assumes "0 \<le> axis" and "axis \<le> 2"
  shows "take_seam g 0 axis = Inr s \<longleftrightarrow>
     (\<exists>pm. points_matrix g = Inr pm \<and> 0 < dim (dimensions g) (nat axis) \<and>
        s = coords (concat (layer (nat axis) 0 pm)))"
  using assms
  by (auto simp: take_seam_def and_then_eq_Inr normalize_axis_def np_take_first)

lemma concatenate_Inr:
  assumes "concatenate dataset other axis tolerance = Inr joined"
  obtains seam_1 seam_2 pm_1 pm_2 new_point_data new_cell_data where
    "0 \<le> axis" "axis \<le> 2"
    "check_dimensions axis 0 (zip (dims_list (dimensions dataset)) (dims_list (dimensions other)))"
    "set (map fst (point_arrays dataset)) = set (map fst (point_arrays other))"
    "set (map fst (cell_arrays dataset)) = set (map fst (cell_arrays other))"
    "take_seam dataset (- 1) axis = Inr seam_1"
    "take_seam other 0 axis = Inr seam_2"
    "np_allclose seam_1 seam_2 tolerance"
    "points_matrix dataset = Inr pm_1"
    "points_matrix other = Inr pm_2"
    "join_point_arrays dataset other (nat axis) (point_arrays dataset) = Inr new_point_data"
    "join_cell_arrays dataset other (nat axis) (cell_arrays dataset) = Inr new_cell_data"
    "joined = \<lparr>dimensions = new_dims dataset other (nat axis),
       points = ravel (np_concatenate (slice_spec (nat axis) pm_1) pm_2 (nat axis)),
       point_arrays = new_point_data, cell_arrays = new_cell_data, field_arrays = []\<rparr>"
  using assms unfolding concatenate_def
  by (auto simp: and_then_eq_Inr split: if_splits)

lemma dim_set_dim_same: "a < 3 \<Longrightarrow> dim (set_dim d a v) a = v"
  by (cases d) (auto simp: dim_def set_dim_def)

lemma dim_set_dim_other: "a \<noteq> b \<Longrightarrow> a < 3 \<Longrightarrow> b < 3 \<Longrightarrow> dim (set_dim d a v) b = dim d b"
  by (cases d) (auto simp: dim_def set_dim_def)

section \<open>The dimensions of the result\<close>

text \<open>
  C1: whenever \<open>concatenate\<close> succeeds, the axis is one of 0, 1, 2, the result has
  \<open>base.dimensions[axis] + other.dimensions[axis] - 1\<close> points along it, and along the
  two other axes it has the dimensions of \<open>base\<close>.
\<close>

theorem concatenate_dimensions:
  assumes "concatenate base other axis tolerance = Inr joined"
  shows "axis \<in> {0, 1, 2} \<and>
    int (dim (dimensions joined) (nat axis)) =
      int (dim (dimensions base) (nat axis)) + int (dim (dimensions other) (nat axis)) - 1 \<and>
    (\<forall>a\<in>{0, 1, 2}. a \<noteq> nat axis \<longrightarrow> dim (dimensions joined) a = dim (dimensions base) a)"
proof -
  from assms obtain seam_2 where ax: "0 \<le> axis" "axis \<le> 2"
    and seam: "take_seam other 0 axis = Inr seam_2"
    and dims: "dimensions joined = new_dims base other (nat axis)"
    by (elim concatenate_Inr) simp
  from seam ax have pos: "0 < dim (dimensions other) (nat axis)"
    by (auto simp: take_seam_first)
  have lt: "nat axis < 3" using ax by simp
  have "axis \<in> {0, 1, 2}" using ax by auto
  moreover have "int (dim (dimensions joined) (nat axis)) =
      int (dim (dimensions base) (nat axis)) + int (dim (dimensions other) (nat axis)) - 1"
    using pos lt by (simp add: dims new_dims_def dim_set_dim_same)
  moreover have "\<forall>a\<in>{0, 1, 2}. a \<noteq> nat axis \<longrightarrow> dim (dimensions joined) a = dim (dimensions base) a"
    using lt by (auto simp: dims new_dims_def dim_set_dim_other)
  ultimately show ?thesis by blast
qed

theorem concatenate_dimensions_witness:
  "concatenate grid_a grid_b 0 0 = Inr grid_ab \<and>
   dim (dimensions grid_ab) 0 = 3 \<and> dim (dimensions grid_ab) 1 = 2 \<and> dim (dimensions grid_ab) 2 = 1"
proof -
  have h: "concatenate grid_a grid_b 0 0 = Inr grid_ab"
    by code_simp
  show ?thesis
    using h concatenate_dimensions [OF h]
    by (simp add: grid_a_def grid_b_def grid_ab_def dim_def)
qed

section \<open>The checks before the seam\<close>

lemma check_dimensions_iff:
  "check_dimensions axis 0 (zip (dims_list d1) (dims_list d2)) \<longleftrightarrow>
     (\<forall>a<3. int a \<noteq> axis \<longrightarrow> dim d1 a = dim d2 a)"
proof -
  obtain x1 y1 z1 where d1: "d1 = (x1, y1, z1)" by (cases d1)
  obtain x2 y2 z2 where d2: "d2 = (x2, y2, z2)" by (cases d2)
  have three: "\<And>P. (\<forall>a<3. P a) \<longleftrightarrow> P 0 \<and> P (Suc 0) \<and> P (2::nat)"
    by (auto simp: less_Suc_eq numeral_3_eq_3 numeral_2_eq_2)
  show ?thesis
    unfolding d1 d2 three by (auto simp: dims_list_def dim_def)
qed

text \<open>
  C5: with a valid axis, if the dimensions of \<open>base\<close> and \<open>other\<close> differ along some
  axis other than the concatenation axis, \<open>concatenate\<close> signals the dimension-mismatch
  error, which carries both dimension tuples, and does not succeed.
\<close>

theorem dimension_mismatch:
  assumes "axis \<in> {0, 1, 2}"
    and "\<exists>a\<in>{0, 1, 2}. int a \<noteq> axis \<and> dim (dimensions base) a \<noteq> dim (dimensions other) a"
  shows "concatenate base other axis tolerance =
           Inl (DimensionMismatch (dimensions base) (dimensions other)) \<and>
         (\<forall>joined. concatenate base other axis tolerance \<noteq> Inr joined)"
proof -
  from assms(2) obtain a :: nat where a: "a \<in> {0, 1, 2}" "int a \<noteq> axis"
    "dim (dimensions base) a \<noteq> dim (dimensions other) a"
    by blast
  from a(1) have "a < 3" by auto
  with a have "\<not> (\<forall>a<3. int a \<noteq> axis \<longrightarrow> dim (dimensions base) a = dim (dimensions other) a)"
    by blast
  then have "\<not> check_dimensions axis 0
      (zip (dims_list (dimensions base)) (dims_list (dimensions other)))"
    unfolding check_dimensions_iff .
  moreover have "\<not> axis > 2" using assms(1) by auto
  ultimately have "concatenate base other axis tolerance =
           Inl (DimensionMismatch (dimensions base) (dimensions other))"
    by (simp add: concatenate_def)
  then show ?thesis by simp
qed

theorem dimension_mismatch_witness:
  "concatenate wide_a wide_b 0 0 = Inl (DimensionMismatch (4, 4, 1) (4, 5, 1))"
proof -
  have ax: "(0::int) \<in> {0, 1, 2}" by simp
  have d: "\<exists>a\<in>{0, 1, 2}. int a \<noteq> 0 \<and> dim (dimensions wide_a) a \<noteq> dim (dimensions wide_b) a"
    by (simp add: wide_a_def wide_b_def dim_def)
  show ?thesis
    using dimension_mismatch [OF ax d, of 0] by (simp add: wide_a_def wide_b_def)
qed

text \<open>
  C4: the guard is \<^verbatim>\<open>axis > 2\<close> only. An axis of 3 is rejected with the invalid-axis
  error, but \<open>-1\<close> passes the guard: the dimension loop then skips no axis, the seam
  test compares the last coordinate of \<open>base\<close> with the first coordinate of \<open>other\<close>
  (the matrix has four axes), and where that passes the slice is taken along lattice
  axis 2 while the arrays are joined along the coordinate axis, so numpy refuses the
  shapes. The call ends in an error of numpy or in a seam mismatch, never in the
  invalid-axis error.
\<close>

theorem negative_axis_not_rejected:
  "concatenate unit_grid unit_grid (- 1) 0 = Inl NumpyError \<and>
   concatenate grid_a grid_b (- 1) 0 = Inl (SeamCoincidenceMismatch (- 1) 0) \<and>
   concatenate unit_grid unit_grid 3 0 = Inl InvalidAxis"
  by code_simp

text \<open>
  C7: joining the one-layer grid \<open>edge_a\<close> to \<open>grid_ab\<close> along the first axis passes
  every check and returns a grid of dimensions \<open>(3, 2, 1)\<close>, which has two cells, with a
  cell field of three values: the single layer has one cell of its own, which
  \<open>new_dims\<close> does not count. Both inputs satisfy the invariant of the data model and
  the result does not.
\<close>

theorem degenerate_layer_cells:
  "valid_grid edge_a \<and> valid_grid grid_ab \<and>
   concatenate edge_a grid_ab 0 0 = Inr (grid_ab\<lparr>cell_arrays := [(''c'', [10, 10, 20])]\<rparr>) \<and>
   \<not> valid_grid (grid_ab\<lparr>cell_arrays := [(''c'', [10, 10, 20])]\<rparr>)"
  by code_simp

text \<open>
  C6: for grids whose point-field name sets differ, \<open>concatenate\<close> signals the
  invalid-axis error when the axis is above 2, otherwise the dimension-mismatch error
  when a dimension off the axis differs, and otherwise the point-field-name mismatch;
  and whatever the points and the tolerance are, the result is the same: no coordinate
  is looked at before.
\<close>

theorem point_field_names_before_seam:
  assumes "set (map fst (point_arrays base)) \<noteq> set (map fst (point_arrays other))"
  shows "concatenate base other axis tolerance =
      (if axis > 2 then Inl InvalidAxis
       else if \<exists>a<3. int a \<noteq> axis \<and> dim (dimensions base) a \<noteq> dim (dimensions other) a
         then Inl (DimensionMismatch (dimensions base) (dimensions other))
       else Inl PointFieldNameMismatch) \<and>
    (\<forall>ps qs tol. concatenate (base\<lparr>points := ps\<rparr>) (other\<lparr>points := qs\<rparr>) axis tol
       = concatenate base other axis tolerance)"
proof -
  have chk: "check_dimensions axis 0
      (zip (dims_list (dimensions base)) (dims_list (dimensions other)))
    \<longleftrightarrow> \<not> (\<exists>a<3. int a \<noteq> axis \<and> dim (dimensions base) a \<noteq> dim (dimensions other) a)"
    unfolding check_dimensions_iff by blast
  have r: "concatenate (base\<lparr>points := ps\<rparr>) (other\<lparr>points := qs\<rparr>) axis tol =
      (if axis > 2 then Inl InvalidAxis
       else if \<exists>a<3. int a \<noteq> axis \<and> dim (dimensions base) a \<noteq> dim (dimensions other) a
         then Inl (DimensionMismatch (dimensions base) (dimensions other))
       else Inl PointFieldNameMismatch)" for ps qs tol
  proof (cases "axis > 2")
    case True
    then show ?thesis by (simp add: concatenate_def)
  next
    case False
    show ?thesis
    proof (cases "\<exists>a<3. int a \<noteq> axis \<and> dim (dimensions base) a \<noteq> dim (dimensions other) a")
      case True
      with chk have "\<not> check_dimensions axis 0
          (zip (dims_list (dimensions base)) (dims_list (dimensions other)))"
        by simp
      with True \<open>\<not> axis > 2\<close> show ?thesis by (simp add: concatenate_def)
    next
      case no: False
      with chk have "check_dimensions axis 0
          (zip (dims_list (dimensions base)) (dims_list (dimensions other)))"
        by simp
      with no \<open>\<not> axis > 2\<close> assms show ?thesis by (simp add: concatenate_def)
    qed
  qed
  from r [of "points base" "points other" tolerance] r show ?thesis by simp
qed

theorem point_field_names_before_seam_witness:
  "concatenate grid_a grid_q 0 0 = Inl PointFieldNameMismatch \<and>
   concatenate (grid_a\<lparr>points := []\<rparr>) (grid_q\<lparr>points := [(5, 5, 5)]\<rparr>) 0 1
     = Inl PointFieldNameMismatch \<and>
   concatenate wide_a wide_b 0 0 = Inl (DimensionMismatch (4, 4, 1) (4, 5, 1)) \<and>
   concatenate grid_a grid_q 3 0 = Inl InvalidAxis"
proof -
  have n: "set (map fst (point_arrays grid_a)) \<noteq> set (map fst (point_arrays grid_q))"
    "set (map fst (point_arrays wide_a)) \<noteq> set (map fst (point_arrays wide_b))"
    by (simp_all add: grid_a_def grid_q_def wide_a_def wide_b_def)
  have three: "\<And>P. (\<exists>a<3. P a) \<longleftrightarrow> P 0 \<or> P (Suc 0) \<or> P (2::nat)"
    by (auto simp: less_Suc_eq numeral_3_eq_3 numeral_2_eq_2)
  have d: "\<not> (\<exists>a<3. int a \<noteq> 0 \<and> dim (dimensions grid_a) a \<noteq> dim (dimensions grid_q) a)"
    "\<exists>a<3. int a \<noteq> 0 \<and> dim (dimensions wide_a) a \<noteq> dim (dimensions wide_b) a"
    "dimensions wide_a = (4, 4, 1)" "dimensions wide_b = (4, 5, 1)"
    by (simp_all add: three grid_a_def grid_q_def wide_a_def wide_b_def dim_def)
  from point_field_names_before_seam [OF n(1), of 0 0] d(1)
  have "concatenate grid_a grid_q 0 0 = Inl PointFieldNameMismatch \<and>
    concatenate (grid_a\<lparr>points := []\<rparr>) (grid_q\<lparr>points := [(5, 5, 5)]\<rparr>) 0 1
     = Inl PointFieldNameMismatch"
    by simp
  moreover from point_field_names_before_seam [OF n(2), of 0 0] d(2,3,4)
  have "concatenate wide_a wide_b 0 0 = Inl (DimensionMismatch (4, 4, 1) (4, 5, 1))"
    by simp
  moreover from point_field_names_before_seam [OF n(1), of 3 0]
  have "concatenate grid_a grid_q 3 0 = Inl InvalidAxis"
    by simp
  ultimately show ?thesis by blast
qed

text \<open>
  C6 as stated fails where an earlier check fires: the grids \<open>wide_a\<close> and \<open>wide_b\<close>
  have different point-field names, and the call reports their dimensions instead.
\<close>

theorem field_names_counterexample:
  "set (map fst (point_arrays wide_a)) \<noteq> set (map fst (point_arrays wide_b)) \<and>
   concatenate wide_a wide_b 0 0 = Inl (DimensionMismatch (4, 4, 1) (4, 5, 1)) \<and>
   concatenate wide_a wide_b 0 0 \<noteq> Inl PointFieldNameMismatch"
  by code_simp

section \<open>What the result carries\<close>

lemma join_point_arrays_names:
  "join_point_arrays dataset other axis ps = Inr r \<Longrightarrow> map fst r = map fst ps"
proof (induction ps arbitrary: r)
  case Nil
  then show ?case by simp
next
  case (Cons p ps)
  obtain name a where p: "p = (name, a)" by (cases p)
  from Cons.prems obtain r' v where "join_point_arrays dataset other axis ps = Inr r'"
    and "r = (name, v) # r'"
    unfolding p by (auto simp: and_then_eq_Inr split: if_splits)
  with Cons.IH show ?case unfolding p by simp
qed


lemma join_cell_arrays_names:
  "join_cell_arrays dataset other axis cs = Inr r \<Longrightarrow> map fst r = map fst cs"
proof (induction cs arbitrary: r)
  case Nil
  then show ?case by simp
next
  case (Cons c cs)
  obtain name a where c: "c = (name, a)" by (cases c)
  from Cons.prems obtain r' v where "join_cell_arrays dataset other axis cs = Inr r'"
    and "r = (name, v) # r'"
    unfolding c by (auto simp: and_then_eq_Inr)
  with Cons.IH show ?case unfolding c by simp
qed

lemma join_point_arrays_cong:
  assumes "dimensions d' = dimensions d" and "dimensions o' = dimensions other"
    and "point_arrays o' = point_arrays other"
  shows "join_point_arrays d' o' axis ps = join_point_arrays d other axis ps"
  using assms by (induction ps) (auto simp: reshape_point_array_def cong: option.case_cong if_cong)

lemma join_cell_arrays_cong:
  assumes "dimensions d' = dimensions d" and "dimensions o' = dimensions other"
    and "cell_arrays o' = cell_arrays other"
  shows "join_cell_arrays d' o' axis cs = join_cell_arrays d other axis cs"
  using assms by (induction cs) (auto simp: reshape_cell_array_def cong: option.case_cong if_cong)

lemma take_seam_cong:
  assumes "dimensions g' = dimensions g" and "points g' = points g"
  shows "take_seam g' i axis = take_seam g i axis"
  using assms by (simp add: take_seam_def points_matrix_def cong: if_cong)

lemma reshape_Inr_lattice_of: "reshape shape xs = Inr L \<Longrightarrow> L = lattice_of shape xs"
  by (cases shape) (auto simp: reshape_def split: if_splits)

lemma join_point_arrays_Inr:
  assumes "join_point_arrays dataset other axis ps = Inr r"
  shows "r = map (\<lambda>(name, a). (name,
      ravel (np_concatenate (slice_spec axis (lattice_of (dimensions dataset) a))
        (lattice_of (dimensions other) (the (map_of (point_arrays other) name))) axis))) ps"
  using assms
proof (induction ps arbitrary: r)
  case Nil
  then show ?case by simp
next
  case (Cons p ps)
  obtain name a where p: "p = (name, a)" by (cases p)
  from Cons.prems obtain arr_1 b arr_2 r' where
    a1: "reshape_point_array dataset a = Inr arr_1"
    and b: "map_of (point_arrays other) name = Some b"
    and a2: "reshape_point_array other b = Inr arr_2"
    and rest: "join_point_arrays dataset other axis ps = Inr r'"
    and r: "r = (name, ravel (np_concatenate (slice_spec axis arr_1) arr_2 axis)) # r'"
    unfolding p
    by (auto simp: and_then_eq_Inr split: option.splits if_splits)
  from a1 a2 have "arr_1 = lattice_of (dimensions dataset) a"
    "arr_2 = lattice_of (dimensions other) b"
    by (auto simp: reshape_point_array_def dest: reshape_Inr_lattice_of)
  with Cons.IH [OF rest] r b show ?case
    unfolding p by simp
qed

lemma join_cell_arrays_Inr:
  assumes "join_cell_arrays dataset other axis cs = Inr r"
  shows "r = map (\<lambda>(name, a). (name,
      ravel (np_concatenate (lattice_of (cell_dimensions (dimensions dataset)) a)
        (lattice_of (cell_dimensions (dimensions other)) (the (map_of (cell_arrays other) name)))
        axis))) cs"
  using assms
proof (induction cs arbitrary: r)
  case Nil
  then show ?case by simp
next
  case (Cons c cs)
  obtain name a where c: "c = (name, a)" by (cases c)
  from Cons.prems obtain arr_1 b arr_2 r' where
    a1: "reshape_cell_array dataset a = Inr arr_1"
    and b: "map_of (cell_arrays other) name = Some b"
    and a2: "reshape_cell_array other b = Inr arr_2"
    and rest: "join_cell_arrays dataset other axis cs = Inr r'"
    and r: "r = (name, ravel (np_concatenate arr_1 arr_2 axis)) # r'"
    unfolding c
    by (auto simp: and_then_eq_Inr split: option.splits)
  from a1 a2 have "arr_1 = lattice_of (cell_dimensions (dimensions dataset)) a"
    "arr_2 = lattice_of (cell_dimensions (dimensions other)) b"
    by (auto simp: reshape_cell_array_def dest: reshape_Inr_lattice_of)
  with Cons.IH [OF rest] r b show ?case
    unfolding c by simp
qed

text \<open>
  C10: the result of a successful call has no field-level array; its point fields are
  those of \<open>base\<close>, in the order of \<open>base\<close>, each the column-major flattening of the
  lattice of \<open>base\<close> without its last layer joined to the lattice of \<open>other\<close> along the
  axis; its cell fields are those of \<open>base\<close>, each the flattening of the two cell
  lattices joined along the axis; and the field-level arrays of the inputs have no
  influence on it.
\<close>

theorem field_arrays_ignored:
  assumes "concatenate base other axis tolerance = Inr joined"
  shows "field_arrays joined = [] \<and>
    map fst (point_arrays joined) = map fst (point_arrays base) \<and>
    map fst (cell_arrays joined) = map fst (cell_arrays base) \<and>
    point_arrays joined = map (\<lambda>(name, a). (name,
      ravel (np_concatenate (slice_spec (nat axis) (lattice_of (dimensions base) a))
        (lattice_of (dimensions other) (the (map_of (point_arrays other) name))) (nat axis))))
      (point_arrays base) \<and>
    cell_arrays joined = map (\<lambda>(name, a). (name,
      ravel (np_concatenate (lattice_of (cell_dimensions (dimensions base)) a)
        (lattice_of (cell_dimensions (dimensions other)) (the (map_of (cell_arrays other) name)))
        (nat axis)))) (cell_arrays base) \<and>
    (\<forall>fa fb. concatenate (base\<lparr>field_arrays := fa\<rparr>) (other\<lparr>field_arrays := fb\<rparr>) axis tolerance
       = Inr joined)"
proof -
  from assms obtain new_point_data new_cell_data where
    p: "join_point_arrays base other (nat axis) (point_arrays base) = Inr new_point_data"
    and c: "join_cell_arrays base other (nat axis) (cell_arrays base) = Inr new_cell_data"
    and j: "point_arrays joined = new_point_data" "cell_arrays joined = new_cell_data"
      "field_arrays joined = []"
    by (elim concatenate_Inr) simp
  have same: "concatenate (base\<lparr>field_arrays := fa\<rparr>) (other\<lparr>field_arrays := fb\<rparr>) axis tolerance
      = concatenate base other axis tolerance" for fa fb
    unfolding concatenate_def
    by (simp add: take_seam_cong [of "base\<lparr>field_arrays := fa\<rparr>" base]
        take_seam_cong [of "other\<lparr>field_arrays := fb\<rparr>" other]
        join_point_arrays_cong [of "base\<lparr>field_arrays := fa\<rparr>" base "other\<lparr>field_arrays := fb\<rparr>" other]
        join_cell_arrays_cong [of "base\<lparr>field_arrays := fa\<rparr>" base "other\<lparr>field_arrays := fb\<rparr>" other]
        points_matrix_def new_dims_def cong: if_cong)
  show ?thesis
    using j join_point_arrays_names [OF p] join_cell_arrays_names [OF c]
      join_point_arrays_Inr [OF p] join_cell_arrays_Inr [OF c] same assms
    by simp
qed

theorem field_arrays_ignored_witness:
  "concatenate grid_a grid_b 0 0 = Inr grid_ab \<and>
   field_arrays grid_a = [(''f'', [7])] \<and> field_arrays grid_ab = [] \<and>
   point_arrays grid_ab = [(''p'', [1, 2, 5, 3, 4, 6])] \<and>
   cell_arrays grid_ab = [(''c'', [10, 20])] \<and>
   concatenate (grid_a\<lparr>field_arrays := []\<rparr>) (grid_b\<lparr>field_arrays := [(''g'', [1])]\<rparr>) 0 0
     = Inr grid_ab"
proof -
  have h: "concatenate grid_a grid_b 0 0 = Inr grid_ab"
    by code_simp
  have v: "map (\<lambda>(name, a). (name,
      ravel (np_concatenate (slice_spec (nat 0) (lattice_of (dimensions grid_a) a))
        (lattice_of (dimensions grid_b) (the (map_of (point_arrays grid_b) name))) (nat 0))))
      (point_arrays grid_a) = [(''p'', [1, 2, 5, 3, 4, 6])]"
    "map (\<lambda>(name, a). (name,
      ravel (np_concatenate (lattice_of (cell_dimensions (dimensions grid_a)) a)
        (lattice_of (cell_dimensions (dimensions grid_b)) (the (map_of (cell_arrays grid_b) name)))
        (nat 0)))) (cell_arrays grid_a) = [(''c'', [10, 20])]"
    by code_simp+
  show ?thesis
    using h field_arrays_ignored [OF h] v by (simp add: grid_a_def)
qed

section \<open>The seam test\<close>

lemma length_coords [simp]: "length (coords ps) = 3 * length ps"
  by (induction ps) (auto simp: coords_def)

lemma length_concat_layer:
  assumes "has_shape shape L" and "idx < dim shape axis"
  shows "length (concat (layer axis idx L)) = layer_size shape axis"
proof -
  obtain nx ny nz where s: "shape = (nx, ny, nz)" by (cases shape)
  from assms(1) have len: "length L = nz"
    and planes: "\<And>p. p \<in> set L \<Longrightarrow> length p = ny"
    and lines: "\<And>p l. p \<in> set L \<Longrightarrow> l \<in> set p \<Longrightarrow> length l = nx"
    by (auto simp: s has_shape_def list_all_iff)
  consider "axis = 0" | "axis = 1" | "axis \<noteq> 0 \<and> axis \<noteq> 1" by blast
  then show ?thesis
  proof cases
    case 1
    have "length (concat (map (map (\<lambda>line. line ! idx)) L)) = length (map (map (\<lambda>line. line ! idx)) L) * ny"
      by (rule length_concat_uniform) (auto simp: planes)
    then show ?thesis using 1 len by (simp add: layer_def layer_size_def s)
  next
    case 2
    with assms(2) have idx: "idx < ny" by (simp add: s dim_def)
    have "length (concat (map (\<lambda>plane. plane ! idx) L)) = length (map (\<lambda>plane. plane ! idx) L) * nx"
    proof (rule length_concat_uniform, clarsimp)
      fix p assume p: "p \<in> set L"
      with idx planes have "p ! idx \<in> set p" by simp
      with p lines show "length (p ! idx) = nx" by blast
    qed
    then show ?thesis using 2 len by (simp add: layer_def layer_size_def s mult.commute)
  next
    case 3
    with assms(2) have idx: "idx < nz" by (simp add: s dim_def)
    with len have mem: "L ! idx \<in> set L" by simp
    have "length (concat (L ! idx)) = length (L ! idx) * nx"
      by (rule length_concat_uniform) (auto simp: lines [OF mem])
    then show ?thesis using 3 planes [OF mem] by (simp add: layer_def layer_size_def s mult.commute)
  qed
qed

lemma layer_size_compatible:
  assumes "\<forall>a<3. int a \<noteq> axis \<longrightarrow> dim d1 a = dim d2 a" and "0 \<le> axis" and "axis \<le> 2"
  shows "layer_size d1 (nat axis) = layer_size d2 (nat axis)"
proof -
  obtain x1 y1 z1 where d1: "d1 = (x1, y1, z1)" by (cases d1)
  obtain x2 y2 z2 where d2: "d2 = (x2, y2, z2)" by (cases d2)
  have a: "int 0 \<noteq> axis \<longrightarrow> x1 = x2" "int 1 \<noteq> axis \<longrightarrow> y1 = y2"
    "int 2 \<noteq> axis \<longrightarrow> z1 = z2"
    using assms(1) [rule_format, of 0] assms(1) [rule_format, of 1] assms(1) [rule_format, of 2]
    by (simp_all add: d1 d2 dim_def)
  from assms(2,3) consider "axis = 0" | "axis = 1" | "axis = 2" by linarith
  then show ?thesis
    using a by cases (auto simp: layer_size_def d1 d2)
qed

lemma points_matrix_shape:
  "points_matrix g = Inr pm \<Longrightarrow> has_shape (dimensions g) pm"
  by (cases "dimensions g")
    (auto simp: points_matrix_def reshape_def has_shape_lattice_of split: if_splits)

lemma join_point_arrays_errors:
  "join_point_arrays dataset other axis ps = Inl e \<Longrightarrow>
     e = NumpyError \<or> (\<exists>name. e = SeamFieldMismatch (int axis) name)"
proof (induction ps arbitrary: e)
  case Nil
  then show ?case by simp
next
  case (Cons p ps)
  obtain name a where p: "p = (name, a)" by (cases p)
  show ?case
  proof (cases "join_point_arrays dataset other axis ps")
    case (Inl e')
    with Cons.IH have "e' = NumpyError \<or> (\<exists>name. e' = SeamFieldMismatch (int axis) name)" by simp
    with Cons.prems Inl show ?thesis
      unfolding p
      by (auto simp: and_then_def reshape_point_array_def reshape_def np_take_def py_index_def Let_def
          split: sum.splits option.splits if_splits prod.splits)
  next
    case (Inr r)
    with Cons.prems show ?thesis
      unfolding p
      by (auto simp: and_then_def reshape_point_array_def reshape_def np_take_def py_index_def Let_def
          split: sum.splits option.splits if_splits prod.splits)
  qed
qed

lemma join_cell_arrays_errors:
  "join_cell_arrays dataset other axis cs = Inl e \<Longrightarrow> e = NumpyError"
proof (induction cs arbitrary: e)
  case Nil
  then show ?case by simp
next
  case (Cons c cs)
  obtain name a where c: "c = (name, a)" by (cases c)
  show ?case
  proof (cases "join_cell_arrays dataset other axis cs")
    case (Inl e')
    with Cons.IH have "e' = NumpyError" by simp
    with Cons.prems Inl show ?thesis
      unfolding c
      by (auto simp: and_then_def reshape_cell_array_def reshape_def
          split: sum.splits option.splits if_splits prod.splits)
  next
    case (Inr r)
    with Cons.prems show ?thesis
      unfolding c
      by (auto simp: and_then_def reshape_cell_array_def reshape_def
          split: sum.splits option.splits if_splits prod.splits)
  qed
qed

lemma take_seam_length:
  assumes "take_seam g i axis = Inr s" and "i = - 1 \<or> i = 0" and "0 \<le> axis" and "axis \<le> 2"
  shows "length s = 3 * layer_size (dimensions g) (nat axis)"
proof -
  have "\<exists>pm idx. points_matrix g = Inr pm \<and> idx < dim (dimensions g) (nat axis) \<and>
      s = coords (concat (layer (nat axis) idx pm))"
  proof (cases "i = 0")
    case True
    with assms(1) have "take_seam g 0 axis = Inr s" by simp
    then show ?thesis
      unfolding take_seam_first [OF assms(3,4)] by blast
  next
    case False
    with assms(1,2) have "take_seam g (- 1) axis = Inr s" by simp
    then obtain pm where "points_matrix g = Inr pm" "0 < dim (dimensions g) (nat axis)"
      "s = coords (concat (layer (nat axis) (dim (dimensions g) (nat axis) - 1) pm))"
      unfolding take_seam_last [OF assms(3,4)] by blast
    moreover from this(2) have "dim (dimensions g) (nat axis) - 1 < dim (dimensions g) (nat axis)"
      by simp
    ultimately show ?thesis by blast
  qed
  then obtain pm idx where pm: "points_matrix g = Inr pm"
    and idx: "idx < dim (dimensions g) (nat axis)"
    and s: "s = coords (concat (layer (nat axis) idx pm))"
    by blast
  from length_concat_layer [OF points_matrix_shape [OF pm] idx] show ?thesis
    by (simp add: s)
qed

lemma and_then_eq_Inl:
  "and_then m f = Inl e \<longleftrightarrow> m = Inl e \<or> (\<exists>x. m = Inr x \<and> f x = Inl e)"
  by (cases m) simp_all

lemma points_matrix_errors: "points_matrix g = Inl e \<Longrightarrow> e = NumpyError"
  by (cases "dimensions g") (auto simp: points_matrix_def reshape_def split: if_splits)

lemma after_seam_check:
  assumes "\<not> axis > 2"
    and "check_dimensions axis 0 (zip (dims_list (dimensions base)) (dims_list (dimensions other)))"
    and "set (map fst (point_arrays base)) = set (map fst (point_arrays other))"
    and "set (map fst (cell_arrays base)) = set (map fst (cell_arrays other))"
    and "take_seam base (- 1) axis = Inr seam_1"
    and "take_seam other 0 axis = Inr seam_2"
  shows "concatenate base other axis tolerance = Inl (SeamCoincidenceMismatch axis tolerance)
    \<longleftrightarrow> \<not> np_allclose seam_1 seam_2 tolerance"
proof (cases "np_allclose seam_1 seam_2 tolerance")
  case False
  with assms show ?thesis by (simp add: concatenate_def)
next
  case True
  have eq: "concatenate base other axis tolerance =
    (if axis < 0 then Inl NumpyError
     else and_then (points_matrix base) (\<lambda>pm_1.
          and_then (points_matrix other) (\<lambda>pm_2.
          and_then (join_point_arrays base other (nat axis) (point_arrays base))
            (\<lambda>new_point_data.
          and_then (join_cell_arrays base other (nat axis) (cell_arrays base))
            (\<lambda>new_cell_data.
            Inr \<lparr>dimensions = new_dims base other (nat axis),
                 points = ravel (np_concatenate (slice_spec (nat axis) pm_1) pm_2 (nat axis)),
                 point_arrays = new_point_data,
                 cell_arrays = new_cell_data,
                 field_arrays = []\<rparr>)))))"
    using assms True by (simp add: concatenate_def)
  have "concatenate base other axis tolerance \<noteq> Inl (SeamCoincidenceMismatch axis tolerance)"
    unfolding eq
    by (auto simp: and_then_eq_Inl split: if_splits
        dest: points_matrix_errors join_point_arrays_errors join_cell_arrays_errors)
  with True show ?thesis by simp
qed

lemma py_index_less: "py_index n i = Inr idx \<Longrightarrow> idx < n"
  by (auto simp: py_index_def Let_def split: if_splits)

lemma take_seam_length_any:
  assumes "take_seam g i axis = Inr s"
  shows "\<exists>a. normalize_axis 4 axis = Inr a \<and>
    length s = (if a < 3 then 3 * layer_size (dimensions g) a else n_points g)"
proof -
  from assms obtain pm a where pm: "points_matrix g = Inr pm"
    and a: "normalize_axis 4 axis = Inr a"
    and s: "(if a < 3
       then and_then (np_take pm (dimensions g) i a) (\<lambda>l. Inr (coords (concat l)))
       else and_then (py_index 3 i) (\<lambda>c. Inr (map (component c) (ravel pm)))) = Inr s"
    by (auto simp: take_seam_def and_then_eq_Inr)
  have sh: "has_shape (dimensions g) pm" by (rule points_matrix_shape [OF pm])
  have "length s = (if a < 3 then 3 * layer_size (dimensions g) a else n_points g)"
  proof (cases "a < 3")
    case True
    with s obtain idx where idx: "py_index (dim (dimensions g) a) i = Inr idx"
      and s': "s = coords (concat (layer a idx pm))"
      by (auto simp: and_then_eq_Inr np_take_def)
    from length_concat_layer [OF sh py_index_less [OF idx]] True show ?thesis
      by (simp add: s')
  next
    case False
    with s obtain c where "s = map (component c) (ravel pm)"
      by (auto simp: and_then_eq_Inr)
    moreover have "length (ravel pm) = n_points g"
      using sh by (cases "dimensions g") (simp add: length_ravel n_points_def)
    ultimately show ?thesis using False by simp
  qed
  with a show ?thesis by blast
qed

lemma compatible_negative_axis:
  assumes "\<forall>a<3. int a \<noteq> axis \<longrightarrow> dim d1 a = dim d2 a" and "axis < 0"
  shows "d1 = d2"
proof -
  obtain x1 y1 z1 where d1: "d1 = (x1, y1, z1)" by (cases d1)
  obtain x2 y2 z2 where d2: "d2 = (x2, y2, z2)" by (cases d2)
  show ?thesis
    using assms(1) [rule_format, of 0] assms(1) [rule_format, of 1] assms(1) [rule_format, of 2]
      assms(2)
    by (simp add: d1 d2 dim_def)
qed

lemma seam_lengths_agree:
  assumes "axis \<le> 2"
    and "\<forall>a<3. int a \<noteq> axis \<longrightarrow> dim (dimensions base) a = dim (dimensions other) a"
    and "take_seam base i axis = Inr seam_1" and "take_seam other j axis = Inr seam_2"
  shows "length seam_1 = length seam_2"
proof -
  from take_seam_length_any [OF assms(3)] take_seam_length_any [OF assms(4)]
  obtain a where a: "normalize_axis 4 axis = Inr a"
    and l1: "length seam_1 = (if a < 3 then 3 * layer_size (dimensions base) a else n_points base)"
    and l2: "length seam_2 = (if a < 3 then 3 * layer_size (dimensions other) a else n_points other)"
    by auto
  show ?thesis
  proof (cases "0 \<le> axis")
    case True
    with a assms(1) have "a = nat axis" "a < 3" by (auto simp: normalize_axis_def split: if_splits)
    with l1 l2 layer_size_compatible [OF assms(2) True assms(1)] show ?thesis by simp
  next
    case False
    then have "dimensions base = dimensions other"
      by (intro compatible_negative_axis [OF assms(2)]) simp
    with l1 l2 show ?thesis by (simp add: n_points_def)
  qed
qed

text \<open>
  C3: for grids that pass the axis check (\<open>axis \<le> 2\<close>), the dimension check and the
  field-name checks, let \<open>seam_1\<close> be the coordinates that \<^verbatim>\<open>np.take\<close> returns for
  \<open>base\<close> at index -1 along the axis and \<open>seam_2\<close> those for \<open>other\<close> at index 0 (for an
  axis of 0, 1 or 2, the last layer of \<open>base\<close> and the first layer of \<open>other\<close>). They
  correspond one to one, and \<open>concatenate\<close> signals the seam-coincidence-mismatch error,
  reporting axis and tolerance, exactly when the binary64 test
  \<^verbatim>\<open>abs(a - b) <= tolerance + rtol * abs(b)\<close> fails for some pair. When the tolerance
  is a binary64 number and every difference is at most the tolerance, a difference of
  exactly the tolerance included, that error is never signalled.
\<close>

theorem seam_coincidence:
  assumes "axis \<le> 2"
    and "\<forall>a<3. int a \<noteq> axis \<longrightarrow> dim (dimensions base) a = dim (dimensions other) a"
    and "set (map fst (point_arrays base)) = set (map fst (point_arrays other))"
    and "set (map fst (cell_arrays base)) = set (map fst (cell_arrays other))"
    and "take_seam base (- 1) axis = Inr seam_1"
    and "take_seam other 0 axis = Inr seam_2"
  shows "length seam_1 = length seam_2 \<and>
    (concatenate base other axis tolerance = Inl (SeamCoincidenceMismatch axis tolerance)
       \<longleftrightarrow> (\<exists>i<length seam_1. \<not> isclose (seam_1 ! i) (seam_2 ! i) tolerance)) \<and>
    (fl tolerance = tolerance \<and> (\<forall>i<length seam_1. \<bar>seam_1 ! i - seam_2 ! i\<bar> \<le> tolerance)
       \<longrightarrow> concatenate base other axis tolerance \<noteq> Inl (SeamCoincidenceMismatch axis tolerance))"
proof -
  have chk: "check_dimensions axis 0
      (zip (dims_list (dimensions base)) (dims_list (dimensions other)))"
    using assms(2) unfolding check_dimensions_iff .
  have len: "length seam_1 = length seam_2"
    by (rule seam_lengths_agree [OF assms(1,2,5,6)])
  have ax: "\<not> axis > 2" using assms(1) by simp
  have iff: "concatenate base other axis tolerance = Inl (SeamCoincidenceMismatch axis tolerance)
       \<longleftrightarrow> (\<exists>i<length seam_1. \<not> isclose (seam_1 ! i) (seam_2 ! i) tolerance)"
    unfolding after_seam_check [OF ax chk assms(3,4,5,6)]
    using len by (auto simp: np_allclose_def list_all2_conv_all_nth)
  have "fl tolerance = tolerance \<and> (\<forall>i<length seam_1. \<bar>seam_1 ! i - seam_2 ! i\<bar> \<le> tolerance)
       \<longrightarrow> concatenate base other axis tolerance \<noteq> Inl (SeamCoincidenceMismatch axis tolerance)"
    unfolding iff by (auto intro: isclose_within)
  with len iff show ?thesis by blast
qed

theorem seam_coincidence_witness:
  "concatenate grid_a grid_a 0 0 = Inl (SeamCoincidenceMismatch 0 0) \<and>
   concatenate grid_a grid_a 0 1 \<noteq> Inl (SeamCoincidenceMismatch 0 1) \<and>
   concatenate grid_a grid_b 0 0 \<noteq> Inl (SeamCoincidenceMismatch 0 0)"
proof -
  have ax: "(0::int) \<le> 2" by simp
  have d: "\<forall>a<3. int a \<noteq> 0 \<longrightarrow> dim (dimensions grid_a) a = dim (dimensions grid_a) a"
    "\<forall>a<3. int a \<noteq> 0 \<longrightarrow> dim (dimensions grid_a) a = dim (dimensions grid_b) a"
    by (simp_all add: grid_a_def grid_b_def)
  have n: "set (map fst (point_arrays grid_a)) = set (map fst (point_arrays grid_a))"
    "set (map fst (cell_arrays grid_a)) = set (map fst (cell_arrays grid_a))"
    "set (map fst (point_arrays grid_a)) = set (map fst (point_arrays grid_b))"
    "set (map fst (cell_arrays grid_a)) = set (map fst (cell_arrays grid_b))"
    by (simp_all add: grid_a_def grid_b_def)
  have s1: "take_seam grid_a (- 1) 0 = Inr [1, 0, 0, 1, 1, 0]"
    by code_simp
  have s2: "take_seam grid_a 0 0 = Inr [0, 0, 0, 0, 1, 0]"
    by code_simp
  have s3: "take_seam grid_b 0 0 = Inr [1, 0, 0, 1, 1, 0]"
    by code_simp
  have apart: "\<not> isclose 1 0 0"
    by code_simp
  have far: "\<exists>i<length [1, 0, 0, 1, 1, 0::rat].
      \<not> isclose ([1, 0, 0, 1, 1, 0] ! i) ([0, 0, 0, 0, 1, 0] ! i) 0"
    by (rule exI [of _ 0]) (simp add: apart)
  have one: "fl 1 = 1" and zero: "fl 0 = 0"
    by code_simp+
  have near: "\<forall>i<length [1, 0, 0, 1, 1, 0::rat].
      \<bar>[1, 0, 0, 1, 1, 0] ! i - [0, 0, 0, 0, 1, 0] ! i\<bar> \<le> (1::rat)"
    by (simp add: All_less_Suc)
  have same: "\<forall>i<length [1, 0, 0, 1, 1, 0::rat].
      \<bar>[1, 0, 0, 1, 1, 0] ! i - [1, 0, 0, 1, 1, 0] ! i\<bar> \<le> (0::rat)"
    by simp
  from seam_coincidence [OF ax d(1) n(1,2) s1 s2, of 0] far
  have "concatenate grid_a grid_a 0 0 = Inl (SeamCoincidenceMismatch 0 0)"
    by blast
  moreover from seam_coincidence [OF ax d(1) n(1,2) s1 s2, of 1] near one
  have "concatenate grid_a grid_a 0 1 \<noteq> Inl (SeamCoincidenceMismatch 0 1)"
    by blast
  moreover from seam_coincidence [OF ax d(2) n(3,4) s1 s3, of 0] same zero
  have "concatenate grid_a grid_b 0 0 \<noteq> Inl (SeamCoincidenceMismatch 0 0)"
    by blast
  ultimately show ?thesis by blast
qed

text \<open>
  C3 as stated fails above the tolerance: the points of \<open>far_a\<close> and \<open>far_b\<close> differ
  by one unit in their first coordinate, the tolerance is zero, and the call succeeds,
  because the relative term allows ten units at that distance from the origin.
\<close>

theorem seam_tolerance_counterexample:
  "take_seam far_a (- 1) 0 = Inr [1000001, 0, 0] \<and>
   take_seam far_b 0 0 = Inr [1000000, 0, 0] \<and>
   (0::rat) < \<bar>1000001 - 1000000\<bar> \<and>
   concatenate far_a far_b 0 0 = Inr far_b \<and>
   concatenate far_a far_b 0 0 \<noteq> Inl (SeamCoincidenceMismatch 0 0)"
  by code_simp

section \<open>Joining two lattices\<close>

lemma has_shapeI:
  assumes "length L = nz" and "\<And>p. p \<in> set L \<Longrightarrow> length p = ny"
    and "\<And>p l. p \<in> set L \<Longrightarrow> l \<in> set p \<Longrightarrow> length l = nx"
  shows "has_shape (nx, ny, nz) L"
  using assms by (auto simp: has_shape_def list_all_iff)

lemma has_shapeD:
  assumes "has_shape (nx, ny, nz) L"
  shows "length L = nz" and "\<And>p. p \<in> set L \<Longrightarrow> length p = ny"
    and "\<And>p l. p \<in> set L \<Longrightarrow> l \<in> set p \<Longrightarrow> length l = nx"
  using assms by (auto simp: has_shape_def list_all_iff)

lemma map2_right:
  assumes "length xs = length ys" and "\<And>x y. (x, y) \<in> set (zip xs ys) \<Longrightarrow> f x y = g y"
  shows "map2 f xs ys = map g ys"
  using assms by (induction xs ys rule: list_induct2) auto

lemma map2_left:
  assumes "length xs = length ys" and "\<And>x y. (x, y) \<in> set (zip xs ys) \<Longrightarrow> f x y = g x"
  shows "map2 f xs ys = map g xs"
  using assms by (induction xs ys rule: list_induct2) auto


lemma map2_map_left: "map2 f (map g xs) ys = map2 (\<lambda>x. f (g x)) xs ys"
  by (induction xs arbitrary: ys) (auto simp: zip_Cons1 split: list.splits)

lemma map_map2: "map h (map2 f xs ys) = map2 (\<lambda>x y. h (f x y)) xs ys"
  by (induction xs arbitrary: ys) (auto simp: zip_Cons1 split: list.splits)

lemma join_lines_nth:
  assumes "length xs = length ys" and "\<And>x. x \<in> set xs \<Longrightarrow> length x = Suc idx"
  shows "map (\<lambda>l. l ! idx) (map2 (@) (map butlast xs) ys) = map (\<lambda>l. l ! 0) ys"
proof -
  have "map (\<lambda>l. l ! idx) (map2 (@) (map butlast xs) ys)
      = map2 (\<lambda>x y. (butlast x @ y) ! idx) xs ys"
    by (simp only: map2_map_left map_map2)
  also have "\<dots> = map (\<lambda>l. l ! 0) ys"
  proof (rule map2_right [OF assms(1)])
    fix x y assume "(x, y) \<in> set (zip xs ys)"
    then have "x \<in> set xs" by (rule set_zip_leftD)
    then have "length (butlast x) = idx" using assms(2) by simp
    then show "(butlast x @ y) ! idx = y ! 0" by (simp add: nth_append)
  qed
  finally show ?thesis .
qed


lemma take_join_line: "length x = n \<Longrightarrow> take n (x @ y) = x"
  by simp

lemma drop_join_line: "length x = n \<Longrightarrow> drop n (x @ y) = y"
  by simp

lemma dim_set_dim [simp]: "dim (set_dim d a v) a = v"
  by (cases d) (auto simp: dim_def set_dim_def)

lemma set_dim_set_dim [simp]: "set_dim (set_dim d a v) a w = set_dim d a w"
  by (cases d) (auto simp: set_dim_def)

lemma set_dim_dim [simp]: "set_dim d a (dim d a) = d"
  by (cases d) (auto simp: set_dim_def dim_def)

lemma off_axis:
  assumes "\<forall>a<3. a \<noteq> axis \<longrightarrow> dim (x1, y1, z1) a = dim (x2, y2, z2) a"
  shows "axis \<noteq> 0 \<Longrightarrow> x1 = x2" and "axis \<noteq> 1 \<Longrightarrow> y1 = y2" and "axis < 2 \<Longrightarrow> z1 = z2"
  using assms [rule_format, of 0] assms [rule_format, of 1] assms [rule_format, of 2]
  by (auto simp: dim_def)

lemma has_shape_iff:
  "has_shape (nx, ny, nz) L \<longleftrightarrow>
     length L = nz \<and> (\<forall>p\<in>set L. length p = ny) \<and> (\<forall>p\<in>set L. \<forall>l\<in>set p. length l = nx)"
  by (auto simp: has_shape_def list_all_iff)

lemma has_shape_slice_spec:
  assumes "has_shape s A"
  shows "has_shape (set_dim s axis (dim s axis - 1)) (slice_spec axis A)"
proof -
  obtain nx ny nz where s: "s = (nx, ny, nz)" by (cases s)
  from assms have A: "length A = nz" "\<forall>p\<in>set A. length p = ny"
    "\<forall>p\<in>set A. \<forall>l\<in>set p. length l = nx"
    by (simp_all add: s has_shape_iff)
  consider "axis = 0" | "axis = 1" | "axis \<noteq> 0 \<and> axis \<noteq> 1" by blast
  then show ?thesis
  proof cases
    case 1
    have "has_shape (nx - 1, ny, nz) (map (map butlast) A)"
      unfolding has_shape_iff using A by auto
    with 1 show ?thesis by (simp add: s slice_spec_def set_dim_def dim_def)
  next
    case 2
    have "has_shape (nx, ny - 1, nz) (map butlast A)"
      unfolding has_shape_iff using A by (auto dest: in_set_butlastD)
    with 2 show ?thesis by (simp add: s slice_spec_def set_dim_def dim_def)
  next
    case 3
    have "has_shape (nx, ny, nz - 1) (butlast A)"
      unfolding has_shape_iff using A by (auto dest: in_set_butlastD)
    with 3 show ?thesis by (simp add: s slice_spec_def set_dim_def dim_def)
  qed
qed

lemma has_shape_np_concatenate:
  assumes "has_shape s1 A" and "has_shape s2 B"
    and "\<forall>a<3. a \<noteq> axis \<longrightarrow> dim s1 a = dim s2 a"
  shows "has_shape (set_dim s1 axis (dim s1 axis + dim s2 axis)) (np_concatenate A B axis)"
proof -
  obtain x1 y1 z1 where s1: "s1 = (x1, y1, z1)" by (cases s1)
  obtain x2 y2 z2 where s2: "s2 = (x2, y2, z2)" by (cases s2)
  from assms(1) have A: "length A = z1" "\<forall>p\<in>set A. length p = y1"
    "\<forall>p\<in>set A. \<forall>l\<in>set p. length l = x1"
    by (simp_all add: s1 has_shape_iff)
  from assms(2) have B: "length B = z2" "\<forall>p\<in>set B. length p = y2"
    "\<forall>p\<in>set B. \<forall>l\<in>set p. length l = x2"
    by (simp_all add: s2 has_shape_iff)
  note eq = off_axis [OF assms(3) [unfolded s1 s2]]
  consider "axis = 0" | "axis = 1" | "axis \<noteq> 0 \<and> axis \<noteq> 1" by blast
  then show ?thesis
  proof cases
    case 1
    with eq have e: "y1 = y2" "z1 = z2" by simp_all
    have "has_shape (x1 + x2, y1, z1) (map2 (map2 (@)) A B)"
      unfolding has_shape_iff
    proof (intro conjI ballI)
      show "length (map2 (map2 (@)) A B) = z1" using A B e by simp
    next
      fix p assume "p \<in> set (map2 (map2 (@)) A B)"
      then obtain a b where "a \<in> set A" "b \<in> set B" "p = map2 (@) a b"
        by (auto dest: set_zip_leftD set_zip_rightD)
      then show "length p = y1" using A B e by simp
    next
      fix p l assume "p \<in> set (map2 (map2 (@)) A B)" and l: "l \<in> set p"
      then obtain a b where ab: "a \<in> set A" "b \<in> set B" "p = map2 (@) a b"
        by (auto dest: set_zip_leftD set_zip_rightD)
      with l obtain u v where "u \<in> set a" "v \<in> set b" "l = u @ v"
        by (auto dest: set_zip_leftD set_zip_rightD)
      with ab show "length l = x1 + x2" using A B by simp
    qed
    with 1 show ?thesis by (simp add: s1 s2 np_concatenate_def set_dim_def dim_def)
  next
    case 2
    with eq have e: "x1 = x2" "z1 = z2" by simp_all
    have "has_shape (x1, y1 + y2, z1) (map2 (@) A B)"
      unfolding has_shape_iff
    proof (intro conjI ballI)
      show "length (map2 (@) A B) = z1" using A B e by simp
    next
      fix p assume "p \<in> set (map2 (@) A B)"
      then obtain a b where "a \<in> set A" "b \<in> set B" "p = a @ b"
        by (auto dest: set_zip_leftD set_zip_rightD)
      then show "length p = y1 + y2" using A B by simp
    next
      fix p l assume "p \<in> set (map2 (@) A B)" and l: "l \<in> set p"
      then obtain a b where ab: "a \<in> set A" "b \<in> set B" "p = a @ b"
        by (auto dest: set_zip_leftD set_zip_rightD)
      with l show "length l = x1" using A B e by auto
    qed
    with 2 show ?thesis by (simp add: s1 s2 np_concatenate_def set_dim_def dim_def)
  next
    case 3
    with eq have e: "x1 = x2" "y1 = y2" by simp_all
    have "has_shape (x1, y1, z1 + z2) (A @ B)"
      unfolding has_shape_iff using A B e by auto
    with 3 show ?thesis by (simp add: s1 s2 np_concatenate_def set_dim_def dim_def)
  qed
qed

lemma layer_np_concatenate_slice_spec:
  assumes "has_shape s1 A" and "has_shape s2 B"
    and "\<forall>a<3. a \<noteq> axis \<longrightarrow> dim s1 a = dim s2 a" and "0 < dim s1 axis"
  shows "layer axis (dim s1 axis - 1) (np_concatenate (slice_spec axis A) B axis) = layer axis 0 B"
proof -
  obtain x1 y1 z1 where s1: "s1 = (x1, y1, z1)" by (cases s1)
  obtain x2 y2 z2 where s2: "s2 = (x2, y2, z2)" by (cases s2)
  from assms(1) have A: "length A = z1" "\<forall>p\<in>set A. length p = y1"
    "\<forall>p\<in>set A. \<forall>l\<in>set p. length l = x1"
    by (simp_all add: s1 has_shape_iff)
  from assms(2) have B: "length B = z2" "\<forall>p\<in>set B. length p = y2"
    "\<forall>p\<in>set B. \<forall>l\<in>set p. length l = x2"
    by (simp_all add: s2 has_shape_iff)
  note eq = off_axis [OF assms(3) [unfolded s1 s2]]
  consider "axis = 0" | "axis = 1" | "axis \<noteq> 0 \<and> axis \<noteq> 1" by blast
  then show ?thesis
  proof cases
    case 1
    with eq have e: "y1 = y2" "z1 = z2" by simp_all
    from 1 assms(4) have x1: "Suc (x1 - 1) = x1" by (simp add: s1 dim_def)
    have "map (map (\<lambda>l. l ! (x1 - 1))) (map2 (map2 (@)) (map (map butlast) A) B)
        = map2 (\<lambda>a b. map (\<lambda>l. l ! (x1 - 1)) (map2 (@) (map butlast a) b)) A B"
      by (simp only: map2_map_left map_map2)
    also have "\<dots> = map (map (\<lambda>l. l ! 0)) B"
    proof (rule map2_right)
      show "length A = length B" using A B e by simp
    next
      fix a b assume ab: "(a, b) \<in> set (zip A B)"
      then have a: "a \<in> set A" and b: "b \<in> set B"
        by (auto dest: set_zip_leftD set_zip_rightD)
      show "map (\<lambda>l. l ! (x1 - 1)) (map2 (@) (map butlast a) b) = map (\<lambda>l. l ! 0) b"
      proof (rule join_lines_nth)
        show "length a = length b" using a b A B e by simp
      next
        fix x assume "x \<in> set a"
        with a A x1 show "length x = Suc (x1 - 1)" by simp
      qed
    qed
    finally show ?thesis
      using 1 by (simp add: s1 layer_def np_concatenate_def slice_spec_def dim_def)
  next
    case 2
    with eq have e: "x1 = x2" "z1 = z2" by simp_all
    from 2 assms(4) have y1: "Suc (y1 - 1) = y1" by (simp add: s1 dim_def)
    have "map (\<lambda>l. l ! (y1 - 1)) (map2 (@) (map butlast A) B) = map (\<lambda>l. l ! 0) B"
    proof (rule join_lines_nth)
      show "length A = length B" using A B e by simp
    next
      fix x assume "x \<in> set A"
      with A y1 show "length x = Suc (y1 - 1)" by simp
    qed
    then show ?thesis
      using 2 by (simp add: s1 layer_def np_concatenate_def slice_spec_def dim_def)
  next
    case 3
    have "length (butlast A) = z1 - 1" using A by simp
    then have "(butlast A @ B) ! (z1 - 1) = B ! 0" by (simp add: nth_append)
    then show ?thesis
      using 3 by (simp add: s1 layer_def np_concatenate_def slice_spec_def dim_def)
  qed
qed

lemma split_np_concatenate:
  assumes "has_shape s1 A" and "has_shape s2 B"
    and "\<forall>a<3. a \<noteq> axis \<longrightarrow> dim s1 a = dim s2 a"
  shows "first_layers axis (dim s1 axis) (np_concatenate A B axis) = A"
    and "drop_layers axis (dim s1 axis) (np_concatenate A B axis) = B"
proof -
  obtain x1 y1 z1 where s1: "s1 = (x1, y1, z1)" by (cases s1)
  obtain x2 y2 z2 where s2: "s2 = (x2, y2, z2)" by (cases s2)
  from assms(1) have A: "length A = z1" "\<forall>p\<in>set A. length p = y1"
    "\<forall>p\<in>set A. \<forall>l\<in>set p. length l = x1"
    by (simp_all add: s1 has_shape_iff)
  from assms(2) have B: "length B = z2" "\<forall>p\<in>set B. length p = y2"
    "\<forall>p\<in>set B. \<forall>l\<in>set p. length l = x2"
    by (simp_all add: s2 has_shape_iff)
  note eq = off_axis [OF assms(3) [unfolded s1 s2]]
  have "first_layers axis (dim s1 axis) (np_concatenate A B axis) = A \<and>
    drop_layers axis (dim s1 axis) (np_concatenate A B axis) = B"
  proof -
    consider "axis = 0" | "axis = 1" | "axis \<noteq> 0 \<and> axis \<noteq> 1" by blast
    then show ?thesis
    proof cases
      case 1
      with eq have e: "y1 = y2" "z1 = z2" by simp_all
      have len: "length A = length B" using A B e by simp
      have inner: "length a = length b" if "(a, b) \<in> set (zip A B)" for a b
      proof -
        from that have "a \<in> set A" and "b \<in> set B"
          by (auto dest: set_zip_leftD set_zip_rightD)
        with A B e show ?thesis by simp
      qed
      have "map (map (take x1)) (map2 (map2 (@)) A B)
          = map2 (\<lambda>a b. map (take x1) (map2 (@) a b)) A B"
        by (simp only: map_map2)
      also have "\<dots> = map (\<lambda>a. a) A"
      proof (rule map2_left [OF len])
        fix a b assume ab: "(a, b) \<in> set (zip A B)"
        have "map (take x1) (map2 (@) a b) = map2 (\<lambda>u v. take x1 (u @ v)) a b"
          by (simp only: map_map2)
        also have "\<dots> = map (\<lambda>u. u) a"
        proof (rule map2_left [OF inner [OF ab]])
          fix u v assume "(u, v) \<in> set (zip a b)"
          then have "u \<in> set a" by (rule set_zip_leftD)
          moreover from ab have "a \<in> set A" by (rule set_zip_leftD)
          ultimately show "take x1 (u @ v) = u" using A by simp
        qed
        finally show "map (take x1) (map2 (@) a b) = a" by simp
      qed
      finally have t: "map (map (take x1)) (map2 (map2 (@)) A B) = A" by simp
      have "map (map (drop x1)) (map2 (map2 (@)) A B)
          = map2 (\<lambda>a b. map (drop x1) (map2 (@) a b)) A B"
        by (simp only: map_map2)
      also have "\<dots> = map (\<lambda>b. b) B"
      proof (rule map2_right [OF len])
        fix a b assume ab: "(a, b) \<in> set (zip A B)"
        have "map (drop x1) (map2 (@) a b) = map2 (\<lambda>u v. drop x1 (u @ v)) a b"
          by (simp only: map_map2)
        also have "\<dots> = map (\<lambda>v. v) b"
        proof (rule map2_right [OF inner [OF ab]])
          fix u v assume "(u, v) \<in> set (zip a b)"
          then have "u \<in> set a" by (rule set_zip_leftD)
          moreover from ab have "a \<in> set A" by (rule set_zip_leftD)
          ultimately show "drop x1 (u @ v) = v" using A by simp
        qed
        finally show "map (drop x1) (map2 (@) a b) = b" by simp
      qed
      finally have d: "map (map (drop x1)) (map2 (map2 (@)) A B) = B" by simp
      from t d 1 show ?thesis
        by (simp add: s1 first_layers_def drop_layers_def np_concatenate_def dim_def)
    next
      case 2
      with eq have e: "x1 = x2" "z1 = z2" by simp_all
      have len: "length A = length B" using A B e by simp
      have "map (take y1) (map2 (@) A B) = map2 (\<lambda>a b. take y1 (a @ b)) A B"
        by (simp only: map_map2)
      also have "\<dots> = map (\<lambda>a. a) A"
      proof (rule map2_left [OF len])
        fix a b assume "(a, b) \<in> set (zip A B)"
        then have "a \<in> set A" by (rule set_zip_leftD)
        then show "take y1 (a @ b) = a" using A by simp
      qed
      finally have t: "map (take y1) (map2 (@) A B) = A" by simp
      have "map (drop y1) (map2 (@) A B) = map2 (\<lambda>a b. drop y1 (a @ b)) A B"
        by (simp only: map_map2)
      also have "\<dots> = map (\<lambda>b. b) B"
      proof (rule map2_right [OF len])
        fix a b assume "(a, b) \<in> set (zip A B)"
        then have "a \<in> set A" by (rule set_zip_leftD)
        then show "drop y1 (a @ b) = b" using A by simp
      qed
      finally have d: "map (drop y1) (map2 (@) A B) = B" by simp
      from t d 2 show ?thesis
        by (simp add: s1 first_layers_def drop_layers_def np_concatenate_def dim_def)
    next
      case 3
      then show ?thesis
        using A by (simp add: s1 first_layers_def drop_layers_def np_concatenate_def dim_def)
    qed
  qed
  then show "first_layers axis (dim s1 axis) (np_concatenate A B axis) = A"
    and "drop_layers axis (dim s1 axis) (np_concatenate A B axis) = B"
    by simp_all
qed

lemma first_layers_slice_spec:
  "first_layers axis (dim s axis - 1) A = slice_spec axis A" if "has_shape s A"
proof -
  obtain nx ny nz where s: "s = (nx, ny, nz)" by (cases s)
  from that have A: "length A = nz" "\<forall>p\<in>set A. length p = ny"
    "\<forall>p\<in>set A. \<forall>l\<in>set p. length l = nx"
    by (simp_all add: s has_shape_iff)
  consider "axis = 0" | "axis = 1" | "axis \<noteq> 0 \<and> axis \<noteq> 1" by blast
  then show ?thesis
  proof cases
    case 1
    have "map (map (take (nx - 1))) A = map (map butlast) A"
      using A by (auto simp: butlast_conv_take)
    with 1 show ?thesis by (simp add: s first_layers_def slice_spec_def dim_def)
  next
    case 2
    have "map (take (ny - 1)) A = map butlast A"
      using A by (auto simp: butlast_conv_take)
    with 2 show ?thesis by (simp add: s first_layers_def slice_spec_def dim_def)
  next
    case 3
    then show ?thesis
      using A by (simp add: s first_layers_def slice_spec_def dim_def butlast_conv_take)
  qed
qed

lemma joined_points_matrix:
  assumes "concatenate base other axis tolerance = Inr joined"
  obtains pm_1 pm_2 where "points_matrix base = Inr pm_1" and "points_matrix other = Inr pm_2"
    and "points_matrix joined = Inr (np_concatenate (slice_spec (nat axis) pm_1) pm_2 (nat axis))"
    and "\<forall>a<3. a \<noteq> nat axis \<longrightarrow> dim (dimensions base) a = dim (dimensions other) a"
    and "0 < dim (dimensions base) (nat axis)" and "0 < dim (dimensions other) (nat axis)"
    and "nat axis < 3"
proof -
  from assms obtain seam_1 seam_2 pm_1 pm_2 where ax: "0 \<le> axis" "axis \<le> 2"
    and chk: "check_dimensions axis 0
        (zip (dims_list (dimensions base)) (dims_list (dimensions other)))"
    and seam: "take_seam base (- 1) axis = Inr seam_1" "take_seam other 0 axis = Inr seam_2"
    and pm: "points_matrix base = Inr pm_1" "points_matrix other = Inr pm_2"
    and dims: "dimensions joined = new_dims base other (nat axis)"
    and pts: "points joined = ravel (np_concatenate (slice_spec (nat axis) pm_1) pm_2 (nat axis))"
    by (elim concatenate_Inr) simp
  from seam ax have pos: "0 < dim (dimensions base) (nat axis)"
    "0 < dim (dimensions other) (nat axis)"
    by (auto simp: take_seam_last take_seam_first)
  have off: "\<forall>a<3. a \<noteq> nat axis \<longrightarrow> dim (dimensions base) a = dim (dimensions other) a"
    using chk ax unfolding check_dimensions_iff by auto
  have sh: "has_shape (set_dim (set_dim (dimensions base) (nat axis)
        (dim (dimensions base) (nat axis) - 1)) (nat axis)
        (dim (set_dim (dimensions base) (nat axis) (dim (dimensions base) (nat axis) - 1)) (nat axis)
           + dim (dimensions other) (nat axis)))
      (np_concatenate (slice_spec (nat axis) pm_1) pm_2 (nat axis))"
  proof (rule has_shape_np_concatenate)
    show "has_shape (set_dim (dimensions base) (nat axis) (dim (dimensions base) (nat axis) - 1))
        (slice_spec (nat axis) pm_1)"
      by (rule has_shape_slice_spec [OF points_matrix_shape [OF pm(1)]])
    show "has_shape (dimensions other) pm_2"
      by (rule points_matrix_shape [OF pm(2)])
    show "\<forall>a<3. a \<noteq> nat axis \<longrightarrow>
        dim (set_dim (dimensions base) (nat axis) (dim (dimensions base) (nat axis) - 1)) a
          = dim (dimensions other) a"
      using off ax by (simp add: dim_set_dim_other)
  qed
  have nd: "new_dims base other (nat axis) = set_dim (dimensions base) (nat axis)
      (dim (dimensions base) (nat axis) - 1 + dim (dimensions other) (nat axis))"
    using pos by (simp add: new_dims_def nat_add_distrib nat_diff_distrib') 
  from sh have "has_shape (dimensions joined)
      (np_concatenate (slice_spec (nat axis) pm_1) pm_2 (nat axis))"
    by (simp add: dims nd)
  then have "points_matrix joined
      = Inr (np_concatenate (slice_spec (nat axis) pm_1) pm_2 (nat axis))"
    by (cases "dimensions joined") (simp add: points_matrix_def pts reshape_ravel)
  with pm off pos ax show ?thesis by (intro that) simp_all
qed

text \<open>
  C9: after a successful call, the layer of the result at index
  \<open>base.dimensions[axis] - 1\<close> along the axis is the first layer of \<open>other\<close>: from that
  index on the result's points are the whole lattice of \<open>other\<close>, and before it they
  are the lattice of \<open>base\<close> without its last layer. The seam therefore carries the
  coordinates of \<open>other\<close>, whatever those of \<open>base\<close> are within the tolerance.
\<close>

theorem seam_layer_from_other:
  assumes "concatenate base other axis tolerance = Inr joined"
  shows "\<exists>pm_base pm_other pm_joined.
    points_matrix base = Inr pm_base \<and> points_matrix other = Inr pm_other \<and>
    points_matrix joined = Inr pm_joined \<and>
    layer (nat axis) (dim (dimensions base) (nat axis) - 1) pm_joined
      = layer (nat axis) 0 pm_other \<and>
    drop_layers (nat axis) (dim (dimensions base) (nat axis) - 1) pm_joined = pm_other \<and>
    first_layers (nat axis) (dim (dimensions base) (nat axis) - 1) pm_joined
      = first_layers (nat axis) (dim (dimensions base) (nat axis) - 1) pm_base"
proof -
  from assms obtain pm_1 pm_2 where pm: "points_matrix base = Inr pm_1"
    "points_matrix other = Inr pm_2"
    and j: "points_matrix joined
      = Inr (np_concatenate (slice_spec (nat axis) pm_1) pm_2 (nat axis))"
    and off: "\<forall>a<3. a \<noteq> nat axis \<longrightarrow> dim (dimensions base) a = dim (dimensions other) a"
    and pos: "0 < dim (dimensions base) (nat axis)"
    and lt: "nat axis < 3"
    by (rule joined_points_matrix)
  let ?d = "dim (dimensions base) (nat axis)"
  let ?s = "set_dim (dimensions base) (nat axis) (?d - 1)"
  have s1: "has_shape (dimensions base) pm_1" by (rule points_matrix_shape [OF pm(1)])
  have s2: "has_shape (dimensions other) pm_2" by (rule points_matrix_shape [OF pm(2)])
  have sl: "has_shape ?s (slice_spec (nat axis) pm_1)" by (rule has_shape_slice_spec [OF s1])
  have off': "\<forall>a<3. a \<noteq> nat axis \<longrightarrow> dim ?s a = dim (dimensions other) a"
    using off lt by (simp add: dim_set_dim_other)
  have "layer (nat axis) (?d - 1) (np_concatenate (slice_spec (nat axis) pm_1) pm_2 (nat axis))
      = layer (nat axis) 0 pm_2"
    by (rule layer_np_concatenate_slice_spec [OF s1 s2 off pos])
  moreover have "drop_layers (nat axis) (?d - 1)
      (np_concatenate (slice_spec (nat axis) pm_1) pm_2 (nat axis)) = pm_2"
    using split_np_concatenate(2) [OF sl s2 off'] by simp
  moreover have "first_layers (nat axis) (?d - 1)
      (np_concatenate (slice_spec (nat axis) pm_1) pm_2 (nat axis))
      = first_layers (nat axis) (?d - 1) pm_1"
    using split_np_concatenate(1) [OF sl s2 off'] first_layers_slice_spec [OF s1] by simp
  ultimately show ?thesis using pm j by simp
qed

theorem seam_layer_from_other_witness:
  "concatenate grid_a grid_c 0 (1 / 2)
     = Inr (grid_ab\<lparr>points := [(0, 0, 0), (9 / 8, 0, 0), (2, 0, 0),
                               (0, 1, 0), (9 / 8, 1, 0), (2, 1, 0)]\<rparr>) \<and>
   (\<exists>pm_joined. points_matrix (grid_ab\<lparr>points := [(0, 0, 0), (9 / 8, 0, 0), (2, 0, 0),
                               (0, 1, 0), (9 / 8, 1, 0), (2, 1, 0)]\<rparr>) = Inr pm_joined \<and>
      layer 0 1 pm_joined = [[(9 / 8, 0, 0), (9 / 8, 1, 0)]])"
proof -
  have h: "concatenate grid_a grid_c 0 (1 / 2)
     = Inr (grid_ab\<lparr>points := [(0, 0, 0), (9 / 8, 0, 0), (2, 0, 0),
                               (0, 1, 0), (9 / 8, 1, 0), (2, 1, 0)]\<rparr>)"
    by code_simp
  have c: "points_matrix grid_c = Inr [[[(9 / 8, 0, 0), (2, 0, 0)], [(9 / 8, 1, 0), (2, 1, 0)]]]"
    by code_simp
  have l: "layer 0 0 [[[(9 / 8, 0, 0), (2, 0, 0)], [(9 / 8, 1, 0), (2, 1, 0)]]]
      = [[(9 / 8 :: rat, 0 :: rat, 0 :: rat), (9 / 8, 1, 0)]]"
    by (simp add: layer_def)
  have d: "dim (dimensions grid_a) (nat 0) - 1 = 1"
    by (simp add: grid_a_def dim_def)
  show ?thesis
    using h seam_layer_from_other [OF h] c l d by auto
qed

section \<open>Cell fields\<close>







section \<open>Splitting and joining again\<close>





















end
